theory Spec2Isabelle
  imports Complex_Main "HOL-Library.Sublist"
begin

section \<open>The Kust protocol driver (Kust.py)\<close>

text \<open>
  The driver talks to the interface box over a serial line in ASCII text. A line of
  text is a \<open>string\<close>; the model covers lines of ASCII characters, which is what
  the box sends. The character classes below are those of Python's \<open>re\<close> module
  on ASCII characters.
\<close>

subsection \<open>Character classes\<close>

definition CR :: char where
  "CR = CHR 0x0D"

definition LF :: char where
  "LF = CHR 0x0A"

definition is_digit :: "char \<Rightarrow> bool" where
  \<comment> \<open>\<open>\d\<close>\<close>
  "is_digit c \<longleftrightarrow> c \<in> set ''0123456789''"

definition is_word :: "char \<Rightarrow> bool" where
  \<comment> \<open>\<open>\w\<close>\<close>
  "is_word c \<longleftrightarrow>
     c \<in> set ''0123456789ABCDEFGHIJKLMNOPQRSTUVWXYZ_abcdefghijklmnopqrstuvwxyz''"

definition is_space :: "char \<Rightarrow> bool" where
  \<comment> \<open>\<open>\s\<close>: tab, line feed, vertical tab, form feed, carriage return, the four
      separators 0x1C to 0x1F, and the blank\<close>
  "is_space c \<longleftrightarrow>
     c \<in> set [CHR 0x09, CHR 0x0A, CHR 0x0B, CHR 0x0C, CHR 0x0D,
                CHR 0x1C, CHR 0x1D, CHR 0x1E, CHR 0x1F, CHR 0x20]"

definition is_dot :: "char \<Rightarrow> bool" where
  \<comment> \<open>\<open>.\<close> without the DOTALL flag: any character but the line feed\<close>
  "is_dot c \<longleftrightarrow> c \<noteq> LF"

subsection \<open>Regular expressions with backtracking\<close>

text \<open>
  The constructs that the pattern of \<open>SerialCommunication.__init__\<close> uses. The
  matcher returns every way of matching at the start of the input, in the order
  in which a backtracking engine tries them: each result is the rest of the input
  and the groups captured so far. \<open>re.match\<close> takes the first one.
\<close>

datatype regex =
    Eps
  | Chr char
  | Cls "char \<Rightarrow> bool"
  | Cat regex regex
  | Alt regex regex
  | Opt regex
  | Many "char \<Rightarrow> bool"
  | Grp nat regex

type_synonym groups = "nat \<rightharpoonup> string"

fun matches :: "regex \<Rightarrow> string \<times> groups \<Rightarrow> (string \<times> groups) list" where
  "matches Eps (s, g) = [(s, g)]"
| "matches (Chr c) (s, g) =
     (case s of [] \<Rightarrow> [] | x # xs \<Rightarrow> if x = c then [(xs, g)] else [])"
| "matches (Cls p) (s, g) =
     (case s of [] \<Rightarrow> [] | x # xs \<Rightarrow> if p x then [(xs, g)] else [])"
| "matches (Cat r1 r2) (s, g) = concat (map (matches r2) (matches r1 (s, g)))"
| "matches (Alt r1 r2) (s, g) = matches r1 (s, g) @ matches r2 (s, g)"
| "matches (Opt r) (s, g) = matches r (s, g) @ [(s, g)]"
| "matches (Many p) (s, g) =
     map (\<lambda>k. (drop k s, g)) (rev [0..<Suc (length (takeWhile p s))])"
| "matches (Grp k r) (s, g) =
     map (\<lambda>(t, h). (t, h(k \<mapsto> take (length s - length t) s))) (matches r (s, g))"

primrec times :: "nat \<Rightarrow> regex \<Rightarrow> regex" where
  \<comment> \<open>\<open>r{n}\<close>\<close>
  "times 0 r = Eps"
| "times (Suc n) r = Cat r (times n r)"

definition re_match :: "regex \<Rightarrow> string \<Rightarrow> groups option" where
  "re_match r s = (case matches r (s, Map.empty) of [] \<Rightarrow> None | (t, g) # _ \<Rightarrow> Some g)"

definition group :: "groups \<Rightarrow> nat \<Rightarrow> string" where
  \<comment> \<open>\<open>parsed[k]\<close>; every group of the pattern below takes part in every match\<close>
  "group g k = (case g k of None \<Rightarrow> [] | Some s \<Rightarrow> s)"

subsection \<open>Responses\<close>

record response =
  Command :: string
  ErrCode :: string
  Value :: string

definition sentinel :: response where
  "sentinel = \<lparr>Command = [], ErrCode = [], Value = []\<rparr>"

definition pattern_inc_value :: regex where
  \<comment> \<open>\<open>IB(\w{2})er(\d{2})\w*\s?\+?(\d{5}|.*)\<close>\<close>
  "pattern_inc_value =
     Cat (Chr CHR ''I'') (Cat (Chr CHR ''B'')
    (Cat (Grp 1 (times 2 (Cls is_word)))
    (Cat (Chr CHR ''e'') (Cat (Chr CHR ''r'')
    (Cat (Grp 2 (times 2 (Cls is_digit)))
    (Cat (Many is_word)
    (Cat (Opt (Cls is_space))
    (Cat (Opt (Chr CHR ''+''))
         (Grp 3 (Alt (times 5 (Cls is_digit)) (Many is_dot)))))))))))"

definition parse_response :: "string \<Rightarrow> response" where
  "parse_response resp =
     (case re_match pattern_inc_value resp of
        Some parsed \<Rightarrow>
          \<lparr>Command = group parsed 1, ErrCode = group parsed 2, Value = group parsed 3\<rparr>
      | None \<Rightarrow> sentinel)"

subsection \<open>The builtins \<open>float\<close>, \<open>int\<close> and the formatting of a number\<close>

datatype error = SerialException | ValueError | AttributeError

text \<open>
  A Python float is modelled by the number it denotes: a finite float by an exact
  rational (the rounding and the range of binary64 are not modelled), or one of
  the two infinities, or not-a-number.
\<close>

datatype pyfloat = Finite rat | PosInf | NegInf | NaN

fun fdiv :: "pyfloat \<Rightarrow> int \<Rightarrow> pyfloat" where
  \<comment> \<open>\<open>x / d\<close> for a positive integer constant \<open>d\<close>\<close>
  "fdiv (Finite q) d = Finite (q / of_int d)"
| "fdiv PosInf d = PosInf"
| "fdiv NegInf d = NegInf"
| "fdiv NaN d = NaN"

definition is_pyspace :: "char \<Rightarrow> bool" where
  \<comment> \<open>the blanks that \<open>float\<close> and \<open>int\<close> strip from an ASCII string\<close>
  "is_pyspace c \<longleftrightarrow>
     c \<in> set [CHR 0x09, CHR 0x0A, CHR 0x0B, CHR 0x0C, CHR 0x0D, CHR 0x20]"

definition strip :: "string \<Rightarrow> string" where
  "strip s = rev (dropWhile is_pyspace (rev (dropWhile is_pyspace s)))"

definition sign_split :: "string \<Rightarrow> bool \<times> string" where
  \<comment> \<open>an optional sign; the flag is set for \<open>-\<close>\<close>
  "sign_split s =
     (case s of
        [] \<Rightarrow> (False, [])
      | c # r \<Rightarrow>
          if c = CHR ''-'' then (True, r)
          else if c = CHR ''+'' then (False, r)
          else (False, s))"

fun digitpart_rest :: "string \<Rightarrow> string \<times> string" where
  \<comment> \<open>\<open>(["_"] digit)*\<close>: the digits read and the rest of the input\<close>
  "digitpart_rest [] = ([], [])"
| "digitpart_rest [c] = (if is_digit c then ([c], []) else ([], [c]))"
| "digitpart_rest (c # d # s) =
     (if is_digit c then
        (case digitpart_rest (d # s) of (ds, r) \<Rightarrow> (c # ds, r))
      else if c = CHR ''_'' \<and> is_digit d then
        (case digitpart_rest s of (ds, r) \<Rightarrow> (d # ds, r))
      else ([], c # d # s))"

definition digitpart :: "string \<Rightarrow> (string \<times> string) option" where
  \<comment> \<open>\<open>digit (["_"] digit)*\<close>\<close>
  "digitpart s =
     (case s of
        [] \<Rightarrow> None
      | c # r \<Rightarrow>
          if is_digit c then
            (case digitpart_rest r of (ds, r') \<Rightarrow> Some (c # ds, r'))
          else None)"

definition digit_val :: "char \<Rightarrow> nat" where
  "digit_val c = of_char c - 48"

definition digits_val :: "string \<Rightarrow> nat" where
  "digits_val ds = foldl (\<lambda>n c. 10 * n + digit_val c) 0 ds"

definition signed :: "bool \<Rightarrow> 'a::uminus \<Rightarrow> 'a" where
  "signed neg x = (if neg then - x else x)"

definition py_int :: "string \<Rightarrow> error + int" where
  \<comment> \<open>\<open>int(v)\<close> in base 10: blanks around an optional sign and a digit part; the
      limit that the interpreter may put on the number of digits is not modelled\<close>
  "py_int v =
     (case sign_split (strip v) of (neg, b) \<Rightarrow>
        (case digitpart b of
           Some (ds, []) \<Rightarrow> Inr (signed neg (int (digits_val ds)))
         | _ \<Rightarrow> Inl ValueError))"

definition lower :: "char \<Rightarrow> char" where
  "lower c =
     (case map_of (zip ''ABCDEFGHIJKLMNOPQRSTUVWXYZ'' ''abcdefghijklmnopqrstuvwxyz'') c of
        None \<Rightarrow> c
      | Some l \<Rightarrow> l)"

definition number :: "string \<Rightarrow> (string \<times> string \<times> string) option" where
  \<comment> \<open>\<open>[digitpart] "." digitpart | digitpart ["."]\<close>: the integer digits, the
      fraction digits and the rest of the input\<close>
  "number s =
     (case s of
        [] \<Rightarrow> None
      | c # r \<Rightarrow>
          if c = CHR ''.'' then
            (case digitpart r of None \<Rightarrow> None | Some (fs, r') \<Rightarrow> Some ([], fs, r'))
          else
            (case digitpart s of
               None \<Rightarrow> None
             | Some (is, r1) \<Rightarrow>
                 (case r1 of
                    [] \<Rightarrow> Some (is, [], [])
                  | c1 # r2 \<Rightarrow>
                      if c1 = CHR ''.'' then
                        (case digitpart r2 of
                           None \<Rightarrow> Some (is, [], r2)
                         | Some (fs, r3) \<Rightarrow> Some (is, fs, r3))
                      else Some (is, [], r1))))"

definition exponent :: "string \<Rightarrow> int option" where
  \<comment> \<open>what follows the number, up to the end: nothing, or
      \<open>("e" | "E") [sign] digitpart\<close>\<close>
  "exponent s =
     (case s of
        [] \<Rightarrow> Some 0
      | c # r \<Rightarrow>
          if c = CHR ''e'' \<or> c = CHR ''E'' then
            (case sign_split r of (neg, b) \<Rightarrow>
               (case digitpart b of
                  Some (ds, []) \<Rightarrow> Some (signed neg (int (digits_val ds)))
                | _ \<Rightarrow> None))
          else None)"

definition scale10 :: "rat \<Rightarrow> int \<Rightarrow> rat" where
  \<comment> \<open>\<open>q\<close> times ten to the power \<open>x\<close>\<close>
  "scale10 q x = (if 0 \<le> x then q * 10 ^ nat x else q / 10 ^ nat (- x))"

definition floatnumber :: "string \<Rightarrow> rat option" where
  "floatnumber s =
     (case number s of
        None \<Rightarrow> None
      | Some (is, fs, r) \<Rightarrow>
          (case exponent r of
             None \<Rightarrow> None
           | Some x \<Rightarrow>
               Some (scale10 (of_nat (digits_val (is @ fs))) (x - int (length fs)))))"

definition py_float :: "string \<Rightarrow> error + pyfloat" where
  \<comment> \<open>\<open>float(v)\<close>: blanks around an optional sign and a number, an infinity or a
      not-a-number, the last two in any letter case\<close>
  "py_float v =
     (case sign_split (strip v) of (neg, b) \<Rightarrow>
        if map lower b = ''inf'' \<or> map lower b = ''infinity'' then
          Inr (if neg then NegInf else PosInf)
        else if map lower b = ''nan'' then Inr NaN
        else
          (case floatnumber b of
             None \<Rightarrow> Inl ValueError
           | Some q \<Rightarrow> Inr (Finite (signed neg q))))"

fun str_nat :: "nat \<Rightarrow> string" where
  "str_nat n =
     (if n < 10 then [''0123456789'' ! n]
      else str_nat (n div 10) @ [''0123456789'' ! (n mod 10)])"

definition str_int :: "int \<Rightarrow> string" where
  \<comment> \<open>how an f-string renders an integer\<close>
  "str_int i = (if i < 0 then CHR ''-'' # str_nat (nat (- i)) else str_nat (nat i))"

subsection \<open>The transport: class \<open>SerialCommunication\<close>\<close>

text \<open>
  The serial port is the environment of the driver. What it does in one exchange
  is one of: opening or writing raises before the request is out (\<open>SendFault\<close>);
  the request is written and \<open>readline\<close> raises (\<open>RecvFault\<close>); the bytes read
  are not UTF-8 and \<open>decode\<close> raises (\<open>DecodeFault\<close>); or \<open>readline\<close> returns and
  the text decodes (\<open>Line\<close>). \<open>readline\<close> returns at the line feed that ends a
  line, or at the timeout of 2 seconds with the characters received until then,
  possibly none: a text that does not end in a line feed is a read that timed out.

  The state of a transport is the name of its port, what the port will do in the
  exchanges to come and the requests written so far. A port with nothing left to
  say times out with no character received.
\<close>

datatype exchange = SendFault | RecvFault | DecodeFault | Line string

record serial_communication =
  port :: string
  pending :: "exchange list"
  written :: "string list"

definition timed_out :: "exchange \<Rightarrow> bool" where
  "timed_out x = (case x of Line l \<Rightarrow> l = [] \<or> last l \<noteq> LF | _ \<Rightarrow> False)"

definition request_text :: "string \<Rightarrow> int option \<Rightarrow> string" where
  \<comment> \<open>\<open>f'{req}{nbr}\r\n'\<close>; \<open>None\<close> is the default \<open>nbr=''\<close>\<close>
  "request_text req nbr =
     req @ (case nbr of None \<Rightarrow> [] | Some n \<Rightarrow> str_int n) @ [CR, LF]"

definition req_resp ::
  "serial_communication \<Rightarrow> string \<Rightarrow> int option \<Rightarrow> response \<times> serial_communication" where
  "req_resp self req nbr =
     (case pending self of
        [] \<Rightarrow> (parse_response [], self\<lparr>written := written self @ [request_text req nbr]\<rparr>)
      | SendFault # rest \<Rightarrow> (sentinel, self\<lparr>pending := rest\<rparr>)
      | RecvFault # rest \<Rightarrow>
          (sentinel, self\<lparr>pending := rest, written := written self @ [request_text req nbr]\<rparr>)
      | DecodeFault # rest \<Rightarrow>
          (sentinel, self\<lparr>pending := rest, written := written self @ [request_text req nbr]\<rparr>)
      | Line l # rest \<Rightarrow>
          (parse_response l,
           self\<lparr>pending := rest, written := written self @ [request_text req nbr]\<rparr>))"

definition SerialCommunication_is_raedy ::
  "serial_communication \<Rightarrow> bool \<times> serial_communication" where
  "SerialCommunication_is_raedy self =
     (case req_resp self ''IBRF'' None of (resp, self') \<Rightarrow>
        (if Command resp = ''RF'' then True else False, self'))"

subsection \<open>The driver: class \<open>Kust\<close>\<close>

text \<open>
  The only attribute of the driver is \<open>comm\<close>, \<open>None\<close> until \<open>connect\<close> succeeds.
  Every method returns its result, or the exception that leaves it, together with
  the driver after the call. The lines that \<open>kust_debug\<close> prints are not part of
  the model.
\<close>

record kust =
  comm :: "serial_communication option"

text \<open>
  What the constructor \<open>SerialCommunication(device)\<close> does is part of the
  environment as well: it opens the port, whose exchanges to come are then given,
  or \<open>serial.Serial\<close> raises. \<open>connect\<close> handles \<open>serial.SerialException\<close>
  only; any other exception leaves \<open>connect\<close>.
\<close>

datatype construction = Opens "exchange list" | Raises error

definition SerialCommunication :: "string \<Rightarrow> construction \<Rightarrow> error + serial_communication" where
  "SerialCommunication device outcome =
     (case outcome of
        Opens xs \<Rightarrow> Inr \<lparr>port = device, pending = xs, written = []\<rparr>
      | Raises e \<Rightarrow> Inl e)"

definition connect :: "kust \<Rightarrow> string \<Rightarrow> construction \<Rightarrow> (error + bool) \<times> kust" where
  "connect self device outcome =
     (case SerialCommunication device outcome of
        Inr c \<Rightarrow> (Inr True, self\<lparr>comm := Some c\<rparr>)
      | Inl e \<Rightarrow> if e = SerialException then (Inr False, self) else (Inl e, self))"

definition check_response :: "response \<Rightarrow> string \<Rightarrow> bool" where
  "check_response resp cmd =
     (if Command resp \<noteq> cmd \<or> ErrCode resp \<noteq> ''00'' then False else True)"

definition is_raedy :: "kust \<Rightarrow> bool \<times> kust" where
  "is_raedy self =
     (case comm self of
        None \<Rightarrow> (False, self)
      | Some c \<Rightarrow>
          (case SerialCommunication_is_raedy c of (r, c') \<Rightarrow> (r, self\<lparr>comm := Some c'\<rparr>)))"

definition get_firmware_version :: "kust \<Rightarrow> (error + string) \<times> kust" where
  "get_firmware_version self =
     (case comm self of
        None \<Rightarrow> (Inl AttributeError, self)
      | Some c \<Rightarrow>
          (case req_resp c ''IBRF'' None of (resp, c') \<Rightarrow>
             (if \<not> check_response resp ''RF'' then Inr [] else Inr (Value resp),
              self\<lparr>comm := Some c'\<rparr>)))"

fun temperatures_loop ::
  "nat list \<Rightarrow> pyfloat option list \<Rightarrow> serial_communication \<Rightarrow>
     (error + pyfloat option list) \<times> serial_communication" where
  \<comment> \<open>the body of \<open>for i in range(4)\<close>, for the indices still to come\<close>
  "temperatures_loop [] t c = (Inr t, c)"
| "temperatures_loop (i # is) t c =
     (case req_resp c ''IBRT'' (Some (int i + 1)) of (resp, c') \<Rightarrow>
        if \<not> check_response resp ''RT'' then (Inr [], c')
        else
          (case py_float (Value resp) of
             Inl e \<Rightarrow> (Inl e, c')
           | Inr v \<Rightarrow> temperatures_loop is (t[i := Some (fdiv v 10)]) c'))"

definition get_temperatures :: "kust \<Rightarrow> (error + pyfloat option list) \<times> kust" where
  "get_temperatures self =
     (case comm self of
        None \<Rightarrow> (Inl AttributeError, self)
      | Some c \<Rightarrow>
          (case temperatures_loop [0..<4] (replicate 4 None) c of (r, c') \<Rightarrow>
             (r, self\<lparr>comm := Some c'\<rparr>)))"

fun rotational_loop ::
  "nat list \<Rightarrow> int option list \<Rightarrow> serial_communication \<Rightarrow>
     (error + int option list) \<times> serial_communication" where
  \<comment> \<open>the body of \<open>for i in range(6)\<close>, for the indices still to come\<close>
  "rotational_loop [] s c = (Inr s, c)"
| "rotational_loop (i # is) s c =
     (case req_resp c ''IBRR'' (Some (int i + 1)) of (resp, c') \<Rightarrow>
        if \<not> check_response resp ''RR'' then (Inr [], c')
        else
          (case py_int (Value resp) of
             Inl e \<Rightarrow> (Inl e, c')
           | Inr v \<Rightarrow> rotational_loop is (s[i := Some v]) c'))"

definition get_rotational_frequency :: "kust \<Rightarrow> (error + int option list) \<times> kust" where
  "get_rotational_frequency self =
     (case comm self of
        None \<Rightarrow> (Inl AttributeError, self)
      | Some c \<Rightarrow>
          (case rotational_loop [0..<6] (replicate 6 None) c of (r, c') \<Rightarrow>
             (r, self\<lparr>comm := Some c'\<rparr>)))"

text \<open>\<open>get_oxigen_sensor\<close> returns the empty list or a float.\<close>

datatype reading = EmptyList | Float pyfloat

definition get_oxigen_sensor :: "kust \<Rightarrow> (error + reading) \<times> kust" where
  "get_oxigen_sensor self =
     (case comm self of
        None \<Rightarrow> (Inl AttributeError, self)
      | Some c \<Rightarrow>
          (case req_resp c ''IBRI'' None of (resp, c') \<Rightarrow>
             (if \<not> check_response resp ''RI'' then Inr EmptyList
              else
                (case py_float (Value resp) of
                   Inl e \<Rightarrow> Inl e
                 | Inr v \<Rightarrow> Inr (Float (fdiv v 1000))),
              self\<lparr>comm := Some c'\<rparr>)))"

definition reset_errors :: "kust \<Rightarrow> (error + unit) \<times> kust" where
  "reset_errors self =
     (case comm self of
        None \<Rightarrow> (Inl AttributeError, self)
      | Some c \<Rightarrow>
          (case req_resp c ''IBEI'' None of (resp, c') \<Rightarrow>
             (case check_response resp ''EI'' of _ \<Rightarrow> (Inr (), self\<lparr>comm := Some c'\<rparr>))))"

section \<open>Notions used to state the properties\<close>

text \<open>
  A line is \<open>framed\<close> when it starts with the fixed part of the pattern: \<open>IB\<close>, two
  word characters, \<open>er\<close>, two digits. \<open>payload\<close> reads the value off what follows
  the error code: it skips the word characters, then one blank, then one plus
  sign, and takes five digits if they come next, else everything up to the line
  feed. The lemmas below prove that the backtracking matcher computes both.
\<close>

definition skip_opt :: "(char \<Rightarrow> bool) \<Rightarrow> string \<Rightarrow> string" where
  "skip_opt p s = (case s of [] \<Rightarrow> [] | c # r \<Rightarrow> if p c then r else s)"

definition field :: "string \<Rightarrow> string" where
  "field s =
     (if 5 \<le> length s \<and> list_all is_digit (take 5 s) then take 5 s
      else takeWhile is_dot s)"

definition payload :: "string \<Rightarrow> string" where
  "payload rest =
     field (skip_opt (\<lambda>c. c = CHR ''+'') (skip_opt is_space (dropWhile is_word rest)))"

fun framed :: "string \<Rightarrow> bool" where
  "framed (a # b # c1 # c2 # e # r # d1 # d2 # rest) \<longleftrightarrow>
     a = CHR ''I'' \<and> b = CHR ''B'' \<and> is_word c1 \<and> is_word c2 \<and>
     e = CHR ''e'' \<and> r = CHR ''r'' \<and> is_digit d1 \<and> is_digit d2"
| "framed _ \<longleftrightarrow> False"

text \<open>
  The answer that \<open>req_resp\<close> derives from one exchange, and the answer to the
  \<open>k\<close>-th of the exchanges to come.
\<close>

definition reply :: "exchange \<Rightarrow> response" where
  "reply x = (case x of Line l \<Rightarrow> parse_response l | _ \<Rightarrow> sentinel)"

definition nth_reply :: "serial_communication \<Rightarrow> nat \<Rightarrow> response" where
  "nth_reply c k = (if k < length (pending c) then reply (pending c ! k) else sentinel)"

text \<open>
  Sample runs are stated on a driver connected to a port \<open>COM1\<close> that has written
  nothing yet; \<open>full_line\<close> is a complete line of text as the box sends it.
\<close>

definition full_line :: "string \<Rightarrow> exchange" where
  "full_line s = Line (s @ [CR, LF])"

definition box :: "exchange list \<Rightarrow> kust" where
  "box xs = \<lparr>comm = Some \<lparr>port = ''COM1'', pending = xs, written = []\<rparr>\<rparr>"

section \<open>The parser\<close>

lemma matches_times_Cls:
  "matches (times n (Cls p)) (s, g) =
     (if n \<le> length s \<and> list_all p (take n s) then [(drop n s, g)] else [])"
proof (induction n arbitrary: s)
  case 0
  show ?case by simp
next
  case (Suc n)
  show ?case by (cases s) (simp_all add: Suc.IH)
qed

lemma matches_Many_first: "\<exists>ms. matches (Many p) (s, g) = (dropWhile p s, g) # ms"
  by (simp add: dropWhile_eq_drop)

lemma matches_Cat_first:
  assumes "matches r1 (s, g) = x # xs" and "matches r2 x = y # ys"
  shows "\<exists>zs. matches (Cat r1 r2) (s, g) = y # zs"
  using assms by simp

lemma matches_Opt_Cls_first: "\<exists>ms. matches (Opt (Cls p)) (s, g) = (skip_opt p s, g) # ms"
  by (cases s) (simp_all add: skip_opt_def)

lemma matches_Opt_Chr_first:
  "\<exists>ms. matches (Opt (Chr c)) (s, g) = (skip_opt (\<lambda>x. x = c) s, g) # ms"
  by (cases s) (simp_all add: skip_opt_def)

lemma takeWhile_as_take: "take (length s - length (dropWhile p s)) s = takeWhile p s"
proof -
  have "length (takeWhile p s) \<le> length s"
    by (rule length_takeWhile_le)
  then have "length s - length (dropWhile p s) = length (takeWhile p s)"
    by (simp add: dropWhile_eq_drop)
  then show ?thesis using takeWhile_eq_take [of p s] by simp
qed

lemma matches_field_first:
  "\<exists>t ms. matches (Grp k (Alt (times 5 (Cls is_digit)) (Many is_dot))) (s, g) =
     (t, g(k \<mapsto> field s)) # ms"
proof (cases "5 \<le> length s \<and> list_all is_digit (take 5 s)")
  case True
  then show ?thesis by (simp add: matches_times_Cls field_def del: matches.simps(7))
next
  case False
  then have F: "field s = takeWhile is_dot s"
    by (auto simp: field_def)
  from False have D: "matches (times 5 (Cls is_digit)) (s, g) = []"
    by (auto simp: matches_times_Cls)
  obtain ms where "matches (Many is_dot) (s, g) = (dropWhile is_dot s, g) # ms"
    using matches_Many_first by blast
  with F D show ?thesis
    by (simp add: takeWhile_as_take del: matches.simps(7))
qed

lemma matches_payload_first:
  "\<exists>t ms. matches
      (Cat (Many is_word) (Cat (Opt (Cls is_space)) (Cat (Opt (Chr CHR ''+''))
         (Grp k (Alt (times 5 (Cls is_digit)) (Many is_dot))))))
      (s, g) = (t, g(k \<mapsto> payload s)) # ms"
proof -
  let ?s1 = "dropWhile is_word s"
  let ?s2 = "skip_opt is_space ?s1"
  let ?s3 = "skip_opt (\<lambda>c. c = CHR ''+'') ?s2"
  let ?F = "Grp k (Alt (times 5 (Cls is_digit)) (Many is_dot))"
  obtain t m4 where 4: "matches ?F (?s3, g) = (t, g(k \<mapsto> field ?s3)) # m4"
    using matches_field_first by blast
  obtain m3 where 3: "matches (Opt (Chr CHR ''+'')) (?s2, g) = (?s3, g) # m3"
    using matches_Opt_Chr_first by blast
  obtain m2 where 2: "matches (Opt (Cls is_space)) (?s1, g) = (?s2, g) # m2"
    using matches_Opt_Cls_first by blast
  obtain m1 where 1: "matches (Many is_word) (s, g) = (?s1, g) # m1"
    using matches_Many_first by blast
  obtain z3 where "matches (Cat (Opt (Chr CHR ''+'')) ?F) (?s2, g) = (t, g(k \<mapsto> field ?s3)) # z3"
    using matches_Cat_first [OF 3 4] by blast
  from matches_Cat_first [OF 2 this]
  obtain z2 where "matches (Cat (Opt (Cls is_space)) (Cat (Opt (Chr CHR ''+'')) ?F)) (?s1, g)
      = (t, g(k \<mapsto> field ?s3)) # z2"
    by blast
  from matches_Cat_first [OF 1 this]
  show ?thesis unfolding payload_def by blast
qed

lemma re_match_framed:
  assumes "is_word c1" "is_word c2" "is_digit d1" "is_digit d2"
  shows "\<exists>g. re_match pattern_inc_value
            (CHR ''I'' # CHR ''B'' # c1 # c2 # CHR ''e'' # CHR ''r'' # d1 # d2 # rest) = Some g
          \<and> g 1 = Some [c1, c2] \<and> g 2 = Some [d1, d2] \<and> g 3 = Some (payload rest)"
proof -
  define T where "T = Cat (Many is_word) (Cat (Opt (Cls is_space)) (Cat (Opt (Chr CHR ''+''))
         (Grp 3 (Alt (times 5 (Cls is_digit)) (Many is_dot)))))"
  define g0 :: groups where "g0 = [1 \<mapsto> [c1, c2], 2 \<mapsto> [d1, d2]]"
  have P: "pattern_inc_value =
     Cat (Chr CHR ''I'') (Cat (Chr CHR ''B'')
    (Cat (Grp 1 (Cat (Cls is_word) (Cat (Cls is_word) Eps)))
    (Cat (Chr CHR ''e'') (Cat (Chr CHR ''r'')
    (Cat (Grp 2 (Cat (Cls is_digit) (Cat (Cls is_digit) Eps))) T)))))"
    by (simp add: pattern_inc_value_def T_def numeral_2_eq_2)
  have H: "matches pattern_inc_value
      (CHR ''I'' # CHR ''B'' # c1 # c2 # CHR ''e'' # CHR ''r'' # d1 # d2 # rest, Map.empty)
      = matches T (rest, g0)"
    using assms by (simp add: P g0_def)
  obtain t ms where "matches T (rest, g0) = (t, g0(3 \<mapsto> payload rest)) # ms"
    unfolding T_def using matches_payload_first by blast
  with H show ?thesis by (simp add: re_match_def g0_def)
qed

lemma framedE:
  assumes "framed s"
  obtains c1 c2 d1 d2 rest where
    "s = CHR ''I'' # CHR ''B'' # c1 # c2 # CHR ''e'' # CHR ''r'' # d1 # d2 # rest"
    "is_word c1" "is_word c2" "is_digit d1" "is_digit d2"
  using assms by (cases s rule: framed.cases) simp_all

lemma re_match_unframed:
  assumes "\<not> framed s"
  shows "re_match pattern_inc_value s = None"
  using assms
  by (cases s rule: framed.cases)
     (simp_all add: re_match_def pattern_inc_value_def numeral_2_eq_2)

lemma parse_response_framed:
  assumes "is_word c1" "is_word c2" "is_digit d1" "is_digit d2"
  shows "parse_response
           (CHR ''I'' # CHR ''B'' # c1 # c2 # CHR ''e'' # CHR ''r'' # d1 # d2 # rest) =
         \<lparr>Command = [c1, c2], ErrCode = [d1, d2], Value = payload rest\<rparr>"
proof -
  obtain g where "re_match pattern_inc_value
      (CHR ''I'' # CHR ''B'' # c1 # c2 # CHR ''e'' # CHR ''r'' # d1 # d2 # rest) = Some g"
    and "g 1 = Some [c1, c2]" and "g 2 = Some [d1, d2]" and "g 3 = Some (payload rest)"
    using re_match_framed [OF assms] by blast
  then show ?thesis by (simp add: parse_response_def group_def)
qed

lemma parse_response_unframed: "\<not> framed s \<Longrightarrow> parse_response s = sentinel"
  by (simp add: parse_response_def re_match_unframed)

lemma is_digit_word: "is_digit c \<Longrightarrow> is_word c"
  by (auto simp: is_digit_def is_word_def)
lemma dropWhile_all: "list_all p xs \<Longrightarrow> dropWhile p (xs @ ys) = dropWhile p ys"
  by (induction xs) simp_all
lemma payload_digits:
  assumes "list_all is_digit ds"
  shows "payload ds = []" and "payload (ds @ [CR, LF]) = []"
proof -
  have w: "list_all is_word ds"
    using assms by (induction ds) (simp_all add: is_digit_word)
  from dropWhile_all [OF w, of "[]"] have 1: "dropWhile is_word ds = []"
    by simp
  show "payload ds = []"
    unfolding payload_def 1 by (simp add: skip_opt_def field_def)
  have "\<not> is_word CR"
    by (simp add: is_word_def CR_def)
  with dropWhile_all [OF w, of "[CR, LF]"] have 2: "dropWhile is_word (ds @ [CR, LF]) = [CR, LF]"
    by simp
  show "payload (ds @ [CR, LF]) = []"
    unfolding payload_def 2
    by (simp add: skip_opt_def field_def is_space_def is_dot_def CR_def LF_def)
qed

section \<open>Strings of digits are numbers\<close>

lemma digitpart_rest_digits: "list_all is_digit s \<Longrightarrow> digitpart_rest s = (s, [])"
  by (induction s rule: digitpart_rest.induct) simp_all

lemma digitpart_digits:
  "list_all is_digit ds \<Longrightarrow> ds \<noteq> [] \<Longrightarrow> digitpart ds = Some (ds, [])"
  by (cases ds) (simp_all add: digitpart_def digitpart_rest_digits)

lemma digit_plain:
  assumes "is_digit c"
  shows "\<not> is_pyspace c" and "c \<noteq> CHR ''-''" and "c \<noteq> CHR ''+''" and "c \<noteq> CHR ''.''"
  using assms by (auto simp: is_digit_def is_pyspace_def)

lemma lower_digit:
  assumes "is_digit c"
  shows "lower c = c"
proof -
  from assms consider "c = CHR ''0''" | "c = CHR ''1''" | "c = CHR ''2''" | "c = CHR ''3''"
    | "c = CHR ''4''" | "c = CHR ''5''" | "c = CHR ''6''" | "c = CHR ''7''"
    | "c = CHR ''8''" | "c = CHR ''9''"
    by (auto simp: is_digit_def)
  then show ?thesis
    by cases (simp_all add: lower_def)
qed

lemma strip_digits:
  assumes "list_all is_digit ds"
  shows "strip ds = ds"
proof (cases ds)
  case Nil
  then show ?thesis by (simp add: strip_def)
next
  case (Cons c cs)
  with assms have "\<not> is_pyspace (hd ds)"
    by (simp add: digit_plain)
  then have 1: "dropWhile is_pyspace ds = ds"
    using Cons by simp
  from assms Cons have "is_digit (last ds)"
    by (metis last_in_set list.distinct(1) list_all_iff)
  then have "\<not> is_pyspace (last ds)"
    by (rule digit_plain)
  moreover have "hd (rev ds) = last ds"
    using Cons by (simp only: hd_rev)
  ultimately have "\<not> is_pyspace (hd (rev ds))"
    by simp
  then have "dropWhile is_pyspace (rev ds) = rev ds"
    using Cons by (cases "rev ds") simp_all
  with 1 show ?thesis by (simp add: strip_def)
qed

lemma py_int_digits:
  assumes "list_all is_digit ds" and "ds \<noteq> []"
  shows "py_int ds = Inr (int (digits_val ds))"
proof -
  from assms obtain c cs where ds: "ds = c # cs" and c: "is_digit c"
    by (cases ds) auto
  then have "sign_split ds = (False, ds)"
    by (simp add: sign_split_def digit_plain)
  with assms show ?thesis
    by (simp add: py_int_def strip_digits digitpart_digits signed_def)
qed

lemma py_float_digits:
  assumes "list_all is_digit ds" and "ds \<noteq> []"
  shows "py_float ds = Inr (Finite (of_nat (digits_val ds)))"
proof -
  from assms obtain c cs where ds: "ds = c # cs" and c: "is_digit c"
    by (cases ds) auto
  then have s: "sign_split ds = (False, ds)"
    by (simp add: sign_split_def digit_plain)
  from c have "lower c \<noteq> CHR ''i''" and "lower c \<noteq> CHR ''n''"
    by (auto simp: lower_digit is_digit_def)
  with ds have l: "map lower ds \<noteq> ''inf''" "map lower ds \<noteq> ''infinity''"
    "map lower ds \<noteq> ''nan''"
    by auto
  from assms ds c have "number ds = Some (ds, [], [])"
    by (simp add: number_def digit_plain digitpart_digits)
  then have "floatnumber ds = Some (of_nat (digits_val ds))"
    by (simp add: floatnumber_def exponent_def scale10_def)
  with s l show ?thesis
    by (simp add: py_float_def strip_digits [OF assms(1)] signed_def)
qed

section \<open>Validation\<close>

lemma check_response_iff:
  "check_response resp cmd \<longleftrightarrow> Command resp = cmd \<and> ErrCode resp = ''00''"
  by (simp add: check_response_def)

lemma sentinel_invalid: "\<not> check_response sentinel cmd"
  by (simp add: check_response_def sentinel_def)

lemma re_match_None_iff: "re_match pattern_inc_value line = None \<longleftrightarrow> \<not> framed line"
proof
  assume "re_match pattern_inc_value line = None"
  show "\<not> framed line"
  proof
    assume "framed line"
    then obtain c1 c2 d1 d2 rest where
      "line = CHR ''I'' # CHR ''B'' # c1 # c2 # CHR ''e'' # CHR ''r'' # d1 # d2 # rest"
      "is_word c1" "is_word c2" "is_digit d1" "is_digit d2"
      by (rule framedE)
    with re_match_framed [of c1 c2 d1 d2 rest]
    obtain g where "re_match pattern_inc_value line = Some g" by blast
    with \<open>re_match pattern_inc_value line = None\<close> show False by simp
  qed
next
  assume "\<not> framed line"
  then show "re_match pattern_inc_value line = None" by (rule re_match_unframed)
qed

section \<open>The transport and the loops\<close>

lemma parse_response_Nil: "parse_response [] = sentinel"
  by (simp add: parse_response_unframed)

lemma fst_req_resp: "fst (req_resp c req nbr) = nth_reply c 0"
  by (simp add: req_resp_def nth_reply_def reply_def parse_response_Nil
      split: list.splits exchange.splits)

lemma nth_reply_req_resp: "nth_reply (snd (req_resp c req nbr)) k = nth_reply c (Suc k)"
  by (simp add: req_resp_def nth_reply_def split: list.splits exchange.splits)

lemma written_req_resp:
  "written (snd (req_resp c req nbr)) = written c @ [request_text req nbr] \<or>
   written (snd (req_resp c req nbr)) = written c"
  by (simp add: req_resp_def split: list.splits exchange.splits)

lemma written_req_resp_answered:
  "nth_reply c 0 \<noteq> sentinel \<Longrightarrow>
   written (snd (req_resp c req nbr)) = written c @ [request_text req nbr]"
  by (auto simp: req_resp_def nth_reply_def reply_def split: list.splits exchange.splits)

lemma valid_not_sentinel: "check_response r cmd \<Longrightarrow> r \<noteq> sentinel"
  using sentinel_invalid by blast

lemma temperatures_loop_step:
  "temperatures_loop (i # is) t c =
     (if \<not> check_response (nth_reply c 0) ''RT''
      then (Inr [], snd (req_resp c ''IBRT'' (Some (int i + 1))))
      else
        (case py_float (Value (nth_reply c 0)) of
           Inl e \<Rightarrow> (Inl e, snd (req_resp c ''IBRT'' (Some (int i + 1))))
         | Inr v \<Rightarrow>
             temperatures_loop is (t[i := Some (fdiv v 10)])
               (snd (req_resp c ''IBRT'' (Some (int i + 1))))))"
  by (simp add: case_prod_beta fst_req_resp)

lemma temperatures_loop_abort:
  assumes "j < length is"
    and "\<forall>k<j. check_response (nth_reply c k) ''RT'' \<and>
                (\<exists>v. py_float (Value (nth_reply c k)) = Inr v)"
    and "\<not> check_response (nth_reply c j) ''RT''"
  shows "fst (temperatures_loop is t c) = Inr []"
  using assms
proof (induction "is" arbitrary: j t c)
  case Nil
  then show ?case by simp
next
  case (Cons i "is")
  show ?case
  proof (cases j)
    case 0
    with Cons.prems show ?thesis
      by (simp add: temperatures_loop_step del: temperatures_loop.simps)
  next
    case (Suc j')
    with Cons.prems obtain v where
      ok: "check_response (nth_reply c 0) ''RT''" "py_float (Value (nth_reply c 0)) = Inr v"
      by auto
    let ?c = "snd (req_resp c ''IBRT'' (Some (int i + 1)))"
    have "fst (temperatures_loop is (t[i := Some (fdiv v 10)]) ?c) = Inr []"
    proof (rule Cons.IH [of j'])
      show "j' < length is" using Cons.prems Suc by simp
      show "\<forall>k<j'. check_response (nth_reply ?c k) ''RT'' \<and>
                (\<exists>v. py_float (Value (nth_reply ?c k)) = Inr v)"
        using Cons.prems(2) Suc by (simp add: nth_reply_req_resp)
      show "\<not> check_response (nth_reply ?c j') ''RT''"
        using Cons.prems(3) Suc by (simp add: nth_reply_req_resp)
    qed
    with ok show ?thesis by (simp add: temperatures_loop_step del: temperatures_loop.simps)
  qed
qed

lemma temperatures_loop_raise:
  assumes "fst (temperatures_loop is t c) = Inl e"
  shows "\<exists>k<length is. check_response (nth_reply c k) ''RT'' \<and>
            py_float (Value (nth_reply c k)) = Inl e"
  using assms
proof (induction "is" arbitrary: t c)
  case Nil
  then show ?case by simp
next
  case (Cons i "is")
  let ?c = "snd (req_resp c ''IBRT'' (Some (int i + 1)))"
  show ?case
  proof (cases "check_response (nth_reply c 0) ''RT''")
    case False
    with Cons.prems show ?thesis by (simp add: temperatures_loop_step del: temperatures_loop.simps)
  next
    case True
    show ?thesis
    proof (cases "py_float (Value (nth_reply c 0))")
      case (Inl e')
      with True Cons.prems have "e' = e"
        by (simp add: temperatures_loop_step del: temperatures_loop.simps)
      with True Inl show ?thesis by auto
    next
      case (Inr v)
      with True Cons.prems
      have "fst (temperatures_loop is (t[i := Some (fdiv v 10)]) ?c) = Inl e"
        by (simp add: temperatures_loop_step del: temperatures_loop.simps)
      from Cons.IH [OF this] obtain k where "k < length is"
        "check_response (nth_reply c (Suc k)) ''RT''"
        "py_float (Value (nth_reply c (Suc k))) = Inl e"
        by (auto simp: nth_reply_req_resp)
      then show ?thesis by (intro exI [of _ "Suc k"]) simp
    qed
  qed
qed

lemma temperatures_loop_written:
  "\<exists>n\<le>length is. written (snd (temperatures_loop is t c)) =
      written c @ map (\<lambda>i. request_text ''IBRT'' (Some (int i + 1))) (take n is)"
proof (induction "is" arbitrary: t c)
  case Nil
  show ?case by simp
next
  case (Cons i "is")
  let ?c = "snd (req_resp c ''IBRT'' (Some (int i + 1)))"
  let ?f = "\<lambda>i. request_text ''IBRT'' (Some (int i + 1))"
  show ?case
  proof (cases "check_response (nth_reply c 0) ''RT''")
    case False
    have "snd (temperatures_loop (i # is) t c) = ?c"
      using False by (simp add: temperatures_loop_step del: temperatures_loop.simps)
    moreover from written_req_resp [of c "''IBRT''" "Some (int i + 1)"]
    have "written ?c = written c @ map ?f (take 1 (i # is)) \<or>
          written ?c = written c @ map ?f (take 0 (i # is))"
      by simp
    ultimately show ?thesis
      by (metis le0 Suc_leI zero_less_Suc length_Cons One_nat_def)
  next
    case True
    then have w: "written ?c = written c @ [?f i]"
      by (simp add: written_req_resp_answered valid_not_sentinel)
    show ?thesis
    proof (cases "py_float (Value (nth_reply c 0))")
      case (Inl e)
      with True have "snd (temperatures_loop (i # is) t c) = ?c"
        by (simp add: temperatures_loop_step del: temperatures_loop.simps)
      with w have "written (snd (temperatures_loop (i # is) t c)) =
          written c @ map ?f (take 1 (i # is))"
        by simp
      then show ?thesis
        by (metis Suc_leI zero_less_Suc length_Cons One_nat_def)
    next
      case (Inr v)
      obtain n where n: "n \<le> length is"
        "written (snd (temperatures_loop is (t[i := Some (fdiv v 10)]) ?c)) =
           written ?c @ map ?f (take n is)"
        using Cons.IH by blast
      from True Inr have "snd (temperatures_loop (i # is) t c) =
          snd (temperatures_loop is (t[i := Some (fdiv v 10)]) ?c)"
        by (simp add: temperatures_loop_step del: temperatures_loop.simps)
      with n w have "written (snd (temperatures_loop (i # is) t c)) =
          written c @ map ?f (take (Suc n) (i # is))"
        by simp
      with n(1) show ?thesis
        by (metis Suc_le_mono length_Cons)
    qed
  qed
qed

lemma temperatures_loop_good:
  assumes "length vs = length is"
    and "\<forall>k<length is. check_response (nth_reply c k) ''RT'' \<and>
            py_float (Value (nth_reply c k)) = Inr (vs ! k)"
  shows "fst (temperatures_loop is t c) =
           Inr (fold (\<lambda>(i, x) t. t[i := Some (fdiv x 10)]) (zip is vs) t)
         \<and> written (snd (temperatures_loop is t c)) =
           written c @ map (\<lambda>i. request_text ''IBRT'' (Some (int i + 1))) is"
  using assms
proof (induction "is" arbitrary: vs t c)
  case Nil
  then show ?case by simp
next
  case (Cons i "is")
  let ?c = "snd (req_resp c ''IBRT'' (Some (int i + 1)))"
  from Cons.prems(1) obtain x xs where vs: "vs = x # xs" and len: "length xs = length is"
    by (cases vs) auto
  from Cons.prems(2) vs have ok: "check_response (nth_reply c 0) ''RT''"
    "py_float (Value (nth_reply c 0)) = Inr x"
    by auto
  have rest: "\<forall>k<length is. check_response (nth_reply ?c k) ''RT'' \<and>
            py_float (Value (nth_reply ?c k)) = Inr (xs ! k)"
    using Cons.prems(2) vs by (auto simp: nth_reply_req_resp)
  have w: "written ?c = written c @ [request_text ''IBRT'' (Some (int i + 1))]"
    using ok(1) by (simp add: written_req_resp_answered valid_not_sentinel)
  from Cons.IH [OF len rest, of "t[i := Some (fdiv x 10)]"] ok vs w
  show ?case by (simp add: temperatures_loop_step del: temperatures_loop.simps)
qed

lemma temperatures_loop_abort_written:
  assumes "j < length is"
    and "\<forall>k<j. check_response (nth_reply c k) ''RT'' \<and>
                (\<exists>v. py_float (Value (nth_reply c k)) = Inr v)"
    and "\<not> check_response (nth_reply c j) ''RT''"
  shows "\<exists>n. j \<le> n \<and> n \<le> Suc j \<and> written (snd (temperatures_loop is t c)) =
           written c @ map (\<lambda>i. request_text ''IBRT'' (Some (int i + 1))) (take n is)"
  using assms
proof (induction "is" arbitrary: j t c)
  case Nil
  then show ?case by simp
next
  case (Cons i "is")
  let ?c = "snd (req_resp c ''IBRT'' (Some (int i + 1)))"
  let ?f = "\<lambda>i. request_text ''IBRT'' (Some (int i + 1))"
  show ?case
  proof (cases j)
    case 0
    with Cons.prems have "snd (temperatures_loop (i # is) t c) = ?c"
      by (simp add: temperatures_loop_step del: temperatures_loop.simps)
    moreover from written_req_resp [of c "''IBRT''" "Some (int i + 1)"]
    have "written ?c = written c @ map ?f (take 1 (i # is)) \<or>
          written ?c = written c @ map ?f (take 0 (i # is))"
      by simp
    ultimately show ?thesis using 0
      by (metis le0 le_refl One_nat_def Suc_leI zero_less_Suc)
  next
    case (Suc j')
    with Cons.prems obtain v where
      ok: "check_response (nth_reply c 0) ''RT''" "py_float (Value (nth_reply c 0)) = Inr v"
      by auto
    have w: "written ?c = written c @ [?f i]"
      using ok(1) by (simp add: written_req_resp_answered valid_not_sentinel)
    have "\<exists>n. j' \<le> n \<and> n \<le> Suc j' \<and>
        written (snd (temperatures_loop is (t[i := Some (fdiv v 10)]) ?c)) =
        written ?c @ map ?f (take n is)"
    proof (rule Cons.IH [of j'])
      show "j' < length is" using Cons.prems Suc by simp
      show "\<forall>k<j'. check_response (nth_reply ?c k) ''RT'' \<and>
                (\<exists>v. py_float (Value (nth_reply ?c k)) = Inr v)"
        using Cons.prems(2) Suc by (simp add: nth_reply_req_resp)
      show "\<not> check_response (nth_reply ?c j') ''RT''"
        using Cons.prems(3) Suc by (simp add: nth_reply_req_resp)
    qed
    then obtain n where n: "j' \<le> n" "n \<le> Suc j'"
      "written (snd (temperatures_loop is (t[i := Some (fdiv v 10)]) ?c)) =
        written ?c @ map ?f (take n is)"
      by blast
    from ok have "snd (temperatures_loop (i # is) t c) =
          snd (temperatures_loop is (t[i := Some (fdiv v 10)]) ?c)"
      by (simp add: temperatures_loop_step del: temperatures_loop.simps)
    with n w have "written (snd (temperatures_loop (i # is) t c)) =
          written c @ map ?f (take (Suc n) (i # is))"
      by simp
    with n(1,2) Suc show ?thesis
      by (metis Suc_le_mono)
  qed
qed

lemma rt_requests:
  "map (\<lambda>i. request_text ''IBRT'' (Some (int i + 1))) [0..<4] =
     [''IBRT1'' @ [CR, LF], ''IBRT2'' @ [CR, LF], ''IBRT3'' @ [CR, LF], ''IBRT4'' @ [CR, LF]]"
  by (simp add: request_text_def str_int_def upt_rec)

lemma fst_get_temperatures:
  "comm self = Some c \<Longrightarrow>
     fst (get_temperatures self) = fst (temperatures_loop [0..<4] (replicate 4 None) c)"
  by (simp add: get_temperatures_def case_prod_beta)

lemma snd_get_temperatures:
  "comm self = Some c \<Longrightarrow>
     comm (snd (get_temperatures self)) =
       Some (snd (temperatures_loop [0..<4] (replicate 4 None) c))"
  by (simp add: get_temperatures_def case_prod_beta)

lemma rotational_loop_step:
  "rotational_loop (i # is) t c =
     (if \<not> check_response (nth_reply c 0) ''RR''
      then (Inr [], snd (req_resp c ''IBRR'' (Some (int i + 1))))
      else
        (case py_int (Value (nth_reply c 0)) of
           Inl e \<Rightarrow> (Inl e, snd (req_resp c ''IBRR'' (Some (int i + 1))))
         | Inr v \<Rightarrow>
             rotational_loop is (t[i := Some v])
               (snd (req_resp c ''IBRR'' (Some (int i + 1))))))"
  by (simp add: case_prod_beta fst_req_resp)

lemma rotational_loop_abort:
  assumes "j < length is"
    and "\<forall>k<j. check_response (nth_reply c k) ''RR'' \<and>
                (\<exists>v. py_int (Value (nth_reply c k)) = Inr v)"
    and "\<not> check_response (nth_reply c j) ''RR''"
  shows "fst (rotational_loop is t c) = Inr []"
  using assms
proof (induction "is" arbitrary: j t c)
  case Nil
  then show ?case by simp
next
  case (Cons i "is")
  show ?case
  proof (cases j)
    case 0
    with Cons.prems show ?thesis
      by (simp add: rotational_loop_step del: rotational_loop.simps)
  next
    case (Suc j')
    with Cons.prems obtain v where
      ok: "check_response (nth_reply c 0) ''RR''" "py_int (Value (nth_reply c 0)) = Inr v"
      by auto
    let ?c = "snd (req_resp c ''IBRR'' (Some (int i + 1)))"
    have "fst (rotational_loop is (t[i := Some v]) ?c) = Inr []"
    proof (rule Cons.IH [of j'])
      show "j' < length is" using Cons.prems Suc by simp
      show "\<forall>k<j'. check_response (nth_reply ?c k) ''RR'' \<and>
                (\<exists>v. py_int (Value (nth_reply ?c k)) = Inr v)"
        using Cons.prems(2) Suc by (simp add: nth_reply_req_resp)
      show "\<not> check_response (nth_reply ?c j') ''RR''"
        using Cons.prems(3) Suc by (simp add: nth_reply_req_resp)
    qed
    with ok show ?thesis by (simp add: rotational_loop_step del: rotational_loop.simps)
  qed
qed

lemma rotational_loop_raise:
  assumes "fst (rotational_loop is t c) = Inl e"
  shows "\<exists>k<length is. check_response (nth_reply c k) ''RR'' \<and>
            py_int (Value (nth_reply c k)) = Inl e"
  using assms
proof (induction "is" arbitrary: t c)
  case Nil
  then show ?case by simp
next
  case (Cons i "is")
  let ?c = "snd (req_resp c ''IBRR'' (Some (int i + 1)))"
  show ?case
  proof (cases "check_response (nth_reply c 0) ''RR''")
    case False
    with Cons.prems show ?thesis by (simp add: rotational_loop_step del: rotational_loop.simps)
  next
    case True
    show ?thesis
    proof (cases "py_int (Value (nth_reply c 0))")
      case (Inl e')
      with True Cons.prems have "e' = e"
        by (simp add: rotational_loop_step del: rotational_loop.simps)
      with True Inl show ?thesis by auto
    next
      case (Inr v)
      with True Cons.prems
      have "fst (rotational_loop is (t[i := Some v]) ?c) = Inl e"
        by (simp add: rotational_loop_step del: rotational_loop.simps)
      from Cons.IH [OF this] obtain k where "k < length is"
        "check_response (nth_reply c (Suc k)) ''RR''"
        "py_int (Value (nth_reply c (Suc k))) = Inl e"
        by (auto simp: nth_reply_req_resp)
      then show ?thesis by (intro exI [of _ "Suc k"]) simp
    qed
  qed
qed

lemma rotational_loop_written:
  "\<exists>n\<le>length is. written (snd (rotational_loop is t c)) =
      written c @ map (\<lambda>i. request_text ''IBRR'' (Some (int i + 1))) (take n is)"
proof (induction "is" arbitrary: t c)
  case Nil
  show ?case by simp
next
  case (Cons i "is")
  let ?c = "snd (req_resp c ''IBRR'' (Some (int i + 1)))"
  let ?f = "\<lambda>i. request_text ''IBRR'' (Some (int i + 1))"
  show ?case
  proof (cases "check_response (nth_reply c 0) ''RR''")
    case False
    have "snd (rotational_loop (i # is) t c) = ?c"
      using False by (simp add: rotational_loop_step del: rotational_loop.simps)
    moreover from written_req_resp [of c "''IBRR''" "Some (int i + 1)"]
    have "written ?c = written c @ map ?f (take 1 (i # is)) \<or>
          written ?c = written c @ map ?f (take 0 (i # is))"
      by simp
    ultimately show ?thesis
      by (metis le0 Suc_leI zero_less_Suc length_Cons One_nat_def)
  next
    case True
    then have w: "written ?c = written c @ [?f i]"
      by (simp add: written_req_resp_answered valid_not_sentinel)
    show ?thesis
    proof (cases "py_int (Value (nth_reply c 0))")
      case (Inl e)
      with True have "snd (rotational_loop (i # is) t c) = ?c"
        by (simp add: rotational_loop_step del: rotational_loop.simps)
      with w have "written (snd (rotational_loop (i # is) t c)) =
          written c @ map ?f (take 1 (i # is))"
        by simp
      then show ?thesis
        by (metis Suc_leI zero_less_Suc length_Cons One_nat_def)
    next
      case (Inr v)
      obtain n where n: "n \<le> length is"
        "written (snd (rotational_loop is (t[i := Some v]) ?c)) =
           written ?c @ map ?f (take n is)"
        using Cons.IH by blast
      from True Inr have "snd (rotational_loop (i # is) t c) =
          snd (rotational_loop is (t[i := Some v]) ?c)"
        by (simp add: rotational_loop_step del: rotational_loop.simps)
      with n w have "written (snd (rotational_loop (i # is) t c)) =
          written c @ map ?f (take (Suc n) (i # is))"
        by simp
      with n(1) show ?thesis
        by (metis Suc_le_mono length_Cons)
    qed
  qed
qed

lemma rotational_loop_good:
  assumes "length vs = length is"
    and "\<forall>k<length is. check_response (nth_reply c k) ''RR'' \<and>
            py_int (Value (nth_reply c k)) = Inr (vs ! k)"
  shows "fst (rotational_loop is t c) =
           Inr (fold (\<lambda>(i, x) t. t[i := Some x]) (zip is vs) t)
         \<and> written (snd (rotational_loop is t c)) =
           written c @ map (\<lambda>i. request_text ''IBRR'' (Some (int i + 1))) is"
  using assms
proof (induction "is" arbitrary: vs t c)
  case Nil
  then show ?case by simp
next
  case (Cons i "is")
  let ?c = "snd (req_resp c ''IBRR'' (Some (int i + 1)))"
  from Cons.prems(1) obtain x xs where vs: "vs = x # xs" and len: "length xs = length is"
    by (cases vs) auto
  from Cons.prems(2) vs have ok: "check_response (nth_reply c 0) ''RR''"
    "py_int (Value (nth_reply c 0)) = Inr x"
    by auto
  have rest: "\<forall>k<length is. check_response (nth_reply ?c k) ''RR'' \<and>
            py_int (Value (nth_reply ?c k)) = Inr (xs ! k)"
    using Cons.prems(2) vs by (auto simp: nth_reply_req_resp)
  have w: "written ?c = written c @ [request_text ''IBRR'' (Some (int i + 1))]"
    using ok(1) by (simp add: written_req_resp_answered valid_not_sentinel)
  from Cons.IH [OF len rest, of "t[i := Some x]"] ok vs w
  show ?case by (simp add: rotational_loop_step del: rotational_loop.simps)
qed

lemma rotational_loop_abort_written:
  assumes "j < length is"
    and "\<forall>k<j. check_response (nth_reply c k) ''RR'' \<and>
                (\<exists>v. py_int (Value (nth_reply c k)) = Inr v)"
    and "\<not> check_response (nth_reply c j) ''RR''"
  shows "\<exists>n. j \<le> n \<and> n \<le> Suc j \<and> written (snd (rotational_loop is t c)) =
           written c @ map (\<lambda>i. request_text ''IBRR'' (Some (int i + 1))) (take n is)"
  using assms
proof (induction "is" arbitrary: j t c)
  case Nil
  then show ?case by simp
next
  case (Cons i "is")
  let ?c = "snd (req_resp c ''IBRR'' (Some (int i + 1)))"
  let ?f = "\<lambda>i. request_text ''IBRR'' (Some (int i + 1))"
  show ?case
  proof (cases j)
    case 0
    with Cons.prems have "snd (rotational_loop (i # is) t c) = ?c"
      by (simp add: rotational_loop_step del: rotational_loop.simps)
    moreover from written_req_resp [of c "''IBRR''" "Some (int i + 1)"]
    have "written ?c = written c @ map ?f (take 1 (i # is)) \<or>
          written ?c = written c @ map ?f (take 0 (i # is))"
      by simp
    ultimately show ?thesis using 0
      by (metis le0 le_refl One_nat_def Suc_leI zero_less_Suc)
  next
    case (Suc j')
    with Cons.prems obtain v where
      ok: "check_response (nth_reply c 0) ''RR''" "py_int (Value (nth_reply c 0)) = Inr v"
      by auto
    have w: "written ?c = written c @ [?f i]"
      using ok(1) by (simp add: written_req_resp_answered valid_not_sentinel)
    have "\<exists>n. j' \<le> n \<and> n \<le> Suc j' \<and>
        written (snd (rotational_loop is (t[i := Some v]) ?c)) =
        written ?c @ map ?f (take n is)"
    proof (rule Cons.IH [of j'])
      show "j' < length is" using Cons.prems Suc by simp
      show "\<forall>k<j'. check_response (nth_reply ?c k) ''RR'' \<and>
                (\<exists>v. py_int (Value (nth_reply ?c k)) = Inr v)"
        using Cons.prems(2) Suc by (simp add: nth_reply_req_resp)
      show "\<not> check_response (nth_reply ?c j') ''RR''"
        using Cons.prems(3) Suc by (simp add: nth_reply_req_resp)
    qed
    then obtain n where n: "j' \<le> n" "n \<le> Suc j'"
      "written (snd (rotational_loop is (t[i := Some v]) ?c)) =
        written ?c @ map ?f (take n is)"
      by blast
    from ok have "snd (rotational_loop (i # is) t c) =
          snd (rotational_loop is (t[i := Some v]) ?c)"
      by (simp add: rotational_loop_step del: rotational_loop.simps)
    with n w have "written (snd (rotational_loop (i # is) t c)) =
          written c @ map ?f (take (Suc n) (i # is))"
      by simp
    with n(1,2) Suc show ?thesis
      by (metis Suc_le_mono)
  qed
qed

lemma rr_requests:
  "map (\<lambda>i. request_text ''IBRR'' (Some (int i + 1))) [0..<6] =
     [''IBRR1'' @ [CR, LF], ''IBRR2'' @ [CR, LF], ''IBRR3'' @ [CR, LF],
      ''IBRR4'' @ [CR, LF], ''IBRR5'' @ [CR, LF], ''IBRR6'' @ [CR, LF]]"
  by (simp add: request_text_def str_int_def upt_rec)

lemma fst_get_rotational_frequency:
  "comm self = Some c \<Longrightarrow>
     fst (get_rotational_frequency self) = fst (rotational_loop [0..<6] (replicate 6 None) c)"
  by (simp add: get_rotational_frequency_def case_prod_beta)

lemma snd_get_rotational_frequency:
  "comm self = Some c \<Longrightarrow>
     comm (snd (get_rotational_frequency self)) =
       Some (snd (rotational_loop [0..<6] (replicate 6 None) c))"
  by (simp add: get_rotational_frequency_def case_prod_beta)

section \<open>The accessors\<close>

lemma py_float_error: "py_float s = Inl e \<Longrightarrow> e = ValueError"
  by (auto simp: py_float_def split: prod.splits if_splits option.splits)

lemma py_int_error: "py_int s = Inl e \<Longrightarrow> e = ValueError"
  by (auto simp: py_int_def split: prod.splits option.splits list.splits)

lemma get_oxigen_sensor_eq:
  "comm self = Some c \<Longrightarrow>
     get_oxigen_sensor self =
       (if \<not> check_response (nth_reply c 0) ''RI'' then Inr EmptyList
        else
          (case py_float (Value (nth_reply c 0)) of
             Inl e \<Rightarrow> Inl e
           | Inr v \<Rightarrow> Inr (Float (fdiv v 1000))),
        self\<lparr>comm := Some (snd (req_resp c ''IBRI'' None))\<rparr>)"
  by (simp add: get_oxigen_sensor_def case_prod_beta fst_req_resp)

lemma get_firmware_version_eq:
  "comm self = Some c \<Longrightarrow>
     get_firmware_version self =
       (if \<not> check_response (nth_reply c 0) ''RF'' then Inr [] else Inr (Value (nth_reply c 0)),
        self\<lparr>comm := Some (snd (req_resp c ''IBRF'' None))\<rparr>)"
  by (simp add: get_firmware_version_def case_prod_beta fst_req_resp)

lemma reset_errors_eq:
  "comm self = Some c \<Longrightarrow>
     reset_errors self = (Inr (), self\<lparr>comm := Some (snd (req_resp c ''IBEI'' None))\<rparr>)"
  by (simp add: reset_errors_def case_prod_beta)

lemma is_raedy_eq:
  "comm self = Some c \<Longrightarrow>
     is_raedy self =
       (Command (nth_reply c 0) = ''RF'', self\<lparr>comm := Some (snd (req_resp c ''IBRF'' None))\<rparr>)"
  by (simp add: is_raedy_def SerialCommunication_is_raedy_def case_prod_beta fst_req_resp)

lemma request_text_plain: "request_text req None = req @ [CR, LF]"
  by (simp add: request_text_def)

lemma req_resp_fault:
  "pending c = x # rest \<Longrightarrow> x \<in> {SendFault, RecvFault, DecodeFault} \<Longrightarrow>
     fst (req_resp c req nbr) = sentinel"
  by (auto simp: req_resp_def)

lemma req_resp_Line:
  "pending c = Line l # rest \<Longrightarrow> fst (req_resp c req nbr) = parse_response l"
  by (simp add: req_resp_def)

lemma req_resp_silent: "pending c = [] \<Longrightarrow> fst (req_resp c req nbr) = sentinel"
  by (simp add: req_resp_def parse_response_Nil)

section \<open>Properties of the driver\<close>

text \<open>
  C4. A response passes validation against an expected mnemonic exactly when its
  \<open>Command\<close> is that mnemonic and its \<open>ErrCode\<close> is the string \<open>00\<close>. The lines
  that the pattern does not match are those that are not framed; such a line
  parses to the sentinel, which fails validation against every mnemonic.
\<close>

theorem validation_rule:
  "(check_response resp cmd \<longleftrightarrow> Command resp = cmd \<and> ErrCode resp = ''00'')
   \<and> (re_match pattern_inc_value line = None \<longleftrightarrow> \<not> framed line)
   \<and> (re_match pattern_inc_value line = None \<longrightarrow>
        parse_response line = sentinel \<and> \<not> check_response (parse_response line) cmd)"
  by (simp add: check_response_iff re_match_None_iff parse_response_unframed sentinel_def)

theorem validation_rule_witness:
  "\<not> framed ''ERROR''
   \<and> re_match pattern_inc_value ''ERROR'' = None
   \<and> parse_response ''ERROR'' = sentinel
   \<and> \<not> check_response (parse_response ''ERROR'') ''RT''
   \<and> check_response \<lparr>Command = ''RT'', ErrCode = ''00'', Value = ''00215''\<rparr> ''RT''
   \<and> \<not> check_response \<lparr>Command = ''RT'', ErrCode = ''01'', Value = ''00215''\<rparr> ''RT''
   \<and> \<not> check_response \<lparr>Command = ''RR'', ErrCode = ''00'', Value = ''00215''\<rparr> ''RT''"
proof -
  have u: "\<not> framed ''ERROR''" by simp
  show ?thesis
    using u
      validation_rule [of "\<lparr>Command = ''RT'', ErrCode = ''00'', Value = ''00215''\<rparr>" "''RT''" "''ERROR''"]
      validation_rule [of "\<lparr>Command = ''RT'', ErrCode = ''01'', Value = ''00215''\<rparr>" "''RT''" "''ERROR''"]
      validation_rule [of "\<lparr>Command = ''RR'', ErrCode = ''00'', Value = ''00215''\<rparr>" "''RT''" "''ERROR''"]
    by simp
qed

text \<open>
  C10. Every line that starts with \<open>IB\<close>, two word characters, \<open>er\<close> and two
  digits parses to a response other than the sentinel, whatever follows; the
  command is the two word characters, digits included. The filler \<open>\w*\<close> is
  greedy: when digits follow the error code directly, up to the end of the line,
  it takes them all and the value is empty, and with the error code \<open>00\<close> the
  response still passes validation.
\<close>

theorem filler_is_greedy:
  assumes "is_word c1" "is_word c2" "is_digit d1" "is_digit d2"
  shows
    "parse_response (''IB'' @ [c1, c2] @ ''er'' @ [d1, d2] @ rest) =
       \<lparr>Command = [c1, c2], ErrCode = [d1, d2], Value = payload rest\<rparr>
     \<and> parse_response (''IB'' @ [c1, c2] @ ''er'' @ [d1, d2] @ rest) \<noteq> sentinel
     \<and> (list_all is_digit ds \<longrightarrow>
          parse_response (''IB'' @ [c1, c2] @ ''er'' @ [d1, d2] @ ds) =
            \<lparr>Command = [c1, c2], ErrCode = [d1, d2], Value = []\<rparr>
          \<and> parse_response (''IB'' @ [c1, c2] @ ''er'' @ [d1, d2] @ ds @ [CR, LF]) =
            \<lparr>Command = [c1, c2], ErrCode = [d1, d2], Value = []\<rparr>
          \<and> check_response (parse_response (''IB'' @ [c1, c2] @ ''er'' @ ''00'' @ ds)) [c1, c2])"
proof -
  have z: "is_digit CHR ''0''" by (simp add: is_digit_def)
  show ?thesis
    using parse_response_framed [OF assms] parse_response_framed [OF assms(1,2) z z]
    by (simp add: payload_digits sentinel_def check_response_def)
qed

theorem filler_is_greedy_witness:
  "is_word CHR ''R'' \<and> is_word CHR ''T'' \<and> is_digit CHR ''0'' \<and> list_all is_digit ''00215''
   \<and> parse_response ''IBRTer0000215'' = \<lparr>Command = ''RT'', ErrCode = ''00'', Value = []\<rparr>
   \<and> check_response (parse_response ''IBRTer0000215'') ''RT''
   \<and> parse_response ''IBRTer00+00215'' = \<lparr>Command = ''RT'', ErrCode = ''00'', Value = ''00215''\<rparr>
   \<and> is_word CHR ''1'' \<and> is_word CHR ''2''
   \<and> Command (parse_response ''IB12er00'') = ''12''"
proof -
  have R: "is_word CHR ''R''" and T: "is_word CHR ''T''" and w1: "is_word CHR ''1''"
    and w2: "is_word CHR ''2''"
    by (simp_all add: is_word_def)
  have z: "is_digit CHR ''0''" and ds: "list_all is_digit ''00215''"
    by (simp_all add: is_digit_def)
  have p: "payload ''+00215'' = ''00215''"
    by (simp add: payload_def skip_opt_def field_def is_word_def is_space_def is_digit_def)
  show ?thesis
    using R T w1 w2 z ds p
      filler_is_greedy [OF R T z z, of "''+00215''" "''00215''"]
      filler_is_greedy [OF w1 w2 z z, of "[]" "[]"]
    by (simp add: check_response_def)
qed

text \<open>
  C1 (as amended). \<open>get_temperatures\<close> writes the requests \<open>IBRT1\<close> to \<open>IBRT4\<close> in
  this order, one after the other. If the responses of all four channels pass
  validation and \<open>float\<close> accepts the value of each, it returns the four values
  divided by 10, in the order of the channels. If the response of a channel fails
  validation, and \<open>float\<close> accepts the values of the channels before it, it
  returns the empty list and writes no request for a later channel.
\<close>

theorem get_temperatures_all_or_nothing:
  assumes "comm self = Some c"
  shows
    "(length vs = 4 \<and>
      (\<forall>k<4. check_response (nth_reply c k) ''RT'' \<and>
               py_float (Value (nth_reply c k)) = Inr (vs ! k)) \<longrightarrow>
        fst (get_temperatures self) = Inr (map (\<lambda>x. Some (fdiv x 10)) vs)
        \<and> (\<exists>c'. comm (snd (get_temperatures self)) = Some c' \<and>
              written c' = written c @
                [''IBRT1'' @ [CR, LF], ''IBRT2'' @ [CR, LF],
                 ''IBRT3'' @ [CR, LF], ''IBRT4'' @ [CR, LF]]))
     \<and> (j < 4 \<and>
        (\<forall>k<j. check_response (nth_reply c k) ''RT'' \<and>
                 (\<exists>x. py_float (Value (nth_reply c k)) = Inr x)) \<and>
        \<not> check_response (nth_reply c j) ''RT'' \<longrightarrow>
          fst (get_temperatures self) = Inr []
          \<and> (\<exists>c' n. j \<le> n \<and> n \<le> Suc j \<and> comm (snd (get_temperatures self)) = Some c' \<and>
                written c' = written c @ take n
                  [''IBRT1'' @ [CR, LF], ''IBRT2'' @ [CR, LF],
                   ''IBRT3'' @ [CR, LF], ''IBRT4'' @ [CR, LF]]))
     \<and> (\<exists>c' n. n \<le> 4 \<and> comm (snd (get_temperatures self)) = Some c' \<and>
          written c' = written c @ take n
            [''IBRT1'' @ [CR, LF], ''IBRT2'' @ [CR, LF],
             ''IBRT3'' @ [CR, LF], ''IBRT4'' @ [CR, LF]])"
proof (intro conjI impI)
  assume h: "length vs = 4 \<and>
      (\<forall>k<4. check_response (nth_reply c k) ''RT'' \<and>
               py_float (Value (nth_reply c k)) = Inr (vs ! k))"
  then obtain v0 v1 v2 v3 where vs: "vs = [v0, v1, v2, v3]"
    by (auto simp: length_Suc_conv eval_nat_numeral)
  from h have "length vs = length [0..<4]"
    and "\<forall>k<length [0..<4]. check_response (nth_reply c k) ''RT'' \<and>
               py_float (Value (nth_reply c k)) = Inr (vs ! k)"
    by simp_all
  from temperatures_loop_good [OF this, of "replicate 4 None"]
  have r: "fst (temperatures_loop [0..<4] (replicate 4 None) c) =
             Inr (fold (\<lambda>(i, x) t. t[i := Some (fdiv x 10)]) (zip [0..<4] vs) (replicate 4 None))"
    and w: "written (snd (temperatures_loop [0..<4] (replicate 4 None) c)) =
             written c @ map (\<lambda>i. request_text ''IBRT'' (Some (int i + 1))) [0..<4]"
    by simp_all
  have "fold (\<lambda>(i, x) t. t[i := Some (fdiv x 10)]) (zip [0..<4] vs) (replicate 4 None) =
          map (\<lambda>x. Some (fdiv x 10)) vs"
    by (simp add: vs upt_rec eval_nat_numeral)
  with r show "fst (get_temperatures self) = Inr (map (\<lambda>x. Some (fdiv x 10)) vs)"
    by (simp add: fst_get_temperatures [OF assms])
  from w show "\<exists>c'. comm (snd (get_temperatures self)) = Some c' \<and>
              written c' = written c @
                [''IBRT1'' @ [CR, LF], ''IBRT2'' @ [CR, LF],
                 ''IBRT3'' @ [CR, LF], ''IBRT4'' @ [CR, LF]]"
    by (simp add: snd_get_temperatures [OF assms] rt_requests)
next
  assume h: "j < 4 \<and>
        (\<forall>k<j. check_response (nth_reply c k) ''RT'' \<and>
                 (\<exists>x. py_float (Value (nth_reply c k)) = Inr x)) \<and>
        \<not> check_response (nth_reply c j) ''RT''"
  then have j: "j < length [0..<4]" by simp
  from temperatures_loop_abort [OF j, of c "replicate 4 None"] h
  show "fst (get_temperatures self) = Inr []"
    by (simp add: fst_get_temperatures [OF assms])
  from temperatures_loop_abort_written [OF j, of c "replicate 4 None"] h
  obtain n where "j \<le> n" "n \<le> Suc j"
    "written (snd (temperatures_loop [0..<4] (replicate 4 None) c)) =
       written c @ map (\<lambda>i. request_text ''IBRT'' (Some (int i + 1))) (take n [0..<4])"
    by blast
  then have "j \<le> n \<and> n \<le> Suc j \<and>
      comm (snd (get_temperatures self)) =
        Some (snd (temperatures_loop [0..<4] (replicate 4 None) c)) \<and>
      written (snd (temperatures_loop [0..<4] (replicate 4 None) c)) = written c @ take n
        [''IBRT1'' @ [CR, LF], ''IBRT2'' @ [CR, LF], ''IBRT3'' @ [CR, LF], ''IBRT4'' @ [CR, LF]]"
    by (simp only: snd_get_temperatures [OF assms] take_map [symmetric] rt_requests)
  then show "\<exists>c' n. j \<le> n \<and> n \<le> Suc j \<and> comm (snd (get_temperatures self)) = Some c' \<and>
                written c' = written c @ take n
                  [''IBRT1'' @ [CR, LF], ''IBRT2'' @ [CR, LF],
                   ''IBRT3'' @ [CR, LF], ''IBRT4'' @ [CR, LF]]"
    by blast
next
  from temperatures_loop_written [of "[0..<4]" "replicate 4 None" c]
  obtain n where "n \<le> 4"
    "written (snd (temperatures_loop [0..<4] (replicate 4 None) c)) =
       written c @ map (\<lambda>i. request_text ''IBRT'' (Some (int i + 1))) (take n [0..<4])"
    by auto
  then have "n \<le> 4 \<and>
      comm (snd (get_temperatures self)) =
        Some (snd (temperatures_loop [0..<4] (replicate 4 None) c)) \<and>
      written (snd (temperatures_loop [0..<4] (replicate 4 None) c)) = written c @ take n
        [''IBRT1'' @ [CR, LF], ''IBRT2'' @ [CR, LF],
             ''IBRT3'' @ [CR, LF], ''IBRT4'' @ [CR, LF]]"
    by (simp only: snd_get_temperatures [OF assms] take_map [symmetric] rt_requests)
  then show "\<exists>c' n. n \<le> 4 \<and> comm (snd (get_temperatures self)) = Some c' \<and>
          written c' = written c @ take n
            [''IBRT1'' @ [CR, LF], ''IBRT2'' @ [CR, LF],
             ''IBRT3'' @ [CR, LF], ''IBRT4'' @ [CR, LF]]"
    by blast
qed

theorem get_temperatures_all_or_nothing_witness:
  "fst (get_temperatures
     (box [full_line ''IBRTer00+00200'', full_line ''IBRTer00+00215'',
           full_line ''IBRTer00+00230'', full_line ''IBRTer00+00245''])) =
     Inr [Some (Finite 20), Some (Finite (43 / 2)), Some (Finite 23), Some (Finite (49 / 2))]
   \<and> \<not> check_response (parse_response (''IBRTer07+00230'' @ [CR, LF])) ''RT''
   \<and> fst (get_temperatures
     (box [full_line ''IBRTer00+00200'', full_line ''IBRTer00+00215'',
           full_line ''IBRTer07+00230'', full_line ''IBRTer00+00245''])) = Inr []"
proof -
  define good where "good = \<lparr>port = ''COM1'',
    pending = [full_line ''IBRTer00+00200'', full_line ''IBRTer00+00215'',
               full_line ''IBRTer00+00230'', full_line ''IBRTer00+00245''], written = []\<rparr>"
  define bad where "bad = \<lparr>port = ''COM1'',
    pending = [full_line ''IBRTer00+00200'', full_line ''IBRTer00+00215'',
               full_line ''IBRTer07+00230'', full_line ''IBRTer00+00245''], written = []\<rparr>"
  have g: "comm (box [full_line ''IBRTer00+00200'', full_line ''IBRTer00+00215'',
                      full_line ''IBRTer00+00230'', full_line ''IBRTer00+00245'']) = Some good"
    and b: "comm (box [full_line ''IBRTer00+00200'', full_line ''IBRTer00+00215'',
                       full_line ''IBRTer07+00230'', full_line ''IBRTer00+00245'']) = Some bad"
    by (simp_all add: box_def good_def bad_def)
  have hg: "length [Finite 200, Finite 215, Finite 230, Finite 245] = 4 \<and>
      (\<forall>k<4. check_response (nth_reply good k) ''RT'' \<and>
         py_float (Value (nth_reply good k)) =
           Inr ([Finite 200, Finite 215, Finite 230, Finite 245] ! k))"
    unfolding good_def by code_simp
  have hb: "2 < (4::nat) \<and>
      (\<forall>k<2. check_response (nth_reply bad k) ''RT'' \<and>
         (\<exists>x. py_float (Value (nth_reply bad k)) = Inr x)) \<and>
      \<not> check_response (nth_reply bad 2) ''RT''"
  proof -
    have "py_float (Value (nth_reply bad 0)) = Inr (Finite 200)"
      and "py_float (Value (nth_reply bad 1)) = Inr (Finite 215)"
      and "check_response (nth_reply bad 0) ''RT''"
      and "check_response (nth_reply bad 1) ''RT''"
      and "\<not> check_response (nth_reply bad 2) ''RT''"
      unfolding bad_def by code_simp+
    then show ?thesis by (simp add: less_Suc_eq numeral_2_eq_2)
  qed
  have nb: "\<not> check_response (parse_response (''IBRTer07+00230'' @ [CR, LF])) ''RT''"
    by code_simp
  from get_temperatures_all_or_nothing
         [OF g, of "[Finite 200, Finite 215, Finite 230, Finite 245]" 0] hg
  have 1: "fst (get_temperatures
     (box [full_line ''IBRTer00+00200'', full_line ''IBRTer00+00215'',
           full_line ''IBRTer00+00230'', full_line ''IBRTer00+00245''])) =
     Inr [Some (Finite 20), Some (Finite (43 / 2)), Some (Finite 23), Some (Finite (49 / 2))]"
    by simp
  from get_temperatures_all_or_nothing [OF b, of "[]" 2] hb
  have 2: "fst (get_temperatures
     (box [full_line ''IBRTer00+00200'', full_line ''IBRTer00+00215'',
           full_line ''IBRTer07+00230'', full_line ''IBRTer00+00245''])) = Inr []"
    by blast
  from 1 nb 2 show ?thesis by blast
qed

text \<open>
  C1 as stated fails: a response can pass validation with a value that \<open>float\<close>
  rejects, and then \<open>get_temperatures\<close> raises \<open>ValueError\<close> instead of returning
  four values, or the empty list when a later channel is invalid.
\<close>

theorem get_temperatures_raises:
  "check_response (parse_response (''IBRTer00'' @ [CR, LF])) ''RT''
   \<and> check_response (parse_response (''IBRTer00+00215'' @ [CR, LF])) ''RT''
   \<and> fst (get_temperatures
       (box [full_line ''IBRTer00+00215'', full_line ''IBRTer00+00215'',
             full_line ''IBRTer00+00215'', full_line ''IBRTer00''])) = Inl ValueError
   \<and> \<not> check_response (parse_response (''IBRTer07+00230'' @ [CR, LF])) ''RT''
   \<and> fst (get_temperatures
       (box [full_line ''IBRTer00'', full_line ''IBRTer00+00215'',
             full_line ''IBRTer07+00230'', full_line ''IBRTer00+00215''])) = Inl ValueError"
  by code_simp

text \<open>
  C7 (as amended). \<open>get_rotational_frequency\<close> writes the requests \<open>IBRR1\<close> to
  \<open>IBRR6\<close> in this order, one after the other. If the responses of all six
  channels pass validation and \<open>int\<close> accepts the value of each, it returns the
  six integers, unscaled, in the order of the channels. If the response of a
  channel fails validation, and \<open>int\<close> accepts the values of the channels before
  it, it returns the empty list and writes no request for a later channel.
\<close>

theorem get_rotational_frequency_all_or_nothing:
  assumes "comm self = Some c"
  shows
    "(length vs = 6 \<and>
      (\<forall>k<6. check_response (nth_reply c k) ''RR'' \<and>
               py_int (Value (nth_reply c k)) = Inr (vs ! k)) \<longrightarrow>
        fst (get_rotational_frequency self) = Inr (map (\<lambda>x. Some x) vs)
        \<and> (\<exists>c'. comm (snd (get_rotational_frequency self)) = Some c' \<and>
              written c' = written c @
                [''IBRR1'' @ [CR, LF], ''IBRR2'' @ [CR, LF], ''IBRR3'' @ [CR, LF],
                   ''IBRR4'' @ [CR, LF], ''IBRR5'' @ [CR, LF], ''IBRR6'' @ [CR, LF]]))
     \<and> (j < 6 \<and>
        (\<forall>k<j. check_response (nth_reply c k) ''RR'' \<and>
                 (\<exists>x. py_int (Value (nth_reply c k)) = Inr x)) \<and>
        \<not> check_response (nth_reply c j) ''RR'' \<longrightarrow>
          fst (get_rotational_frequency self) = Inr []
          \<and> (\<exists>c' n. j \<le> n \<and> n \<le> Suc j \<and> comm (snd (get_rotational_frequency self)) = Some c' \<and>
                written c' = written c @ take n
                  [''IBRR1'' @ [CR, LF], ''IBRR2'' @ [CR, LF], ''IBRR3'' @ [CR, LF],
                   ''IBRR4'' @ [CR, LF], ''IBRR5'' @ [CR, LF], ''IBRR6'' @ [CR, LF]]))
     \<and> (\<exists>c' n. n \<le> 6 \<and> comm (snd (get_rotational_frequency self)) = Some c' \<and>
          written c' = written c @ take n
            [''IBRR1'' @ [CR, LF], ''IBRR2'' @ [CR, LF], ''IBRR3'' @ [CR, LF],
             ''IBRR4'' @ [CR, LF], ''IBRR5'' @ [CR, LF], ''IBRR6'' @ [CR, LF]])"
proof (intro conjI impI)
  assume h: "length vs = 6 \<and>
      (\<forall>k<6. check_response (nth_reply c k) ''RR'' \<and>
               py_int (Value (nth_reply c k)) = Inr (vs ! k))"
  then obtain v0 v1 v2 v3 v4 v5 where vs: "vs = [v0, v1, v2, v3, v4, v5]"
    by (auto simp: length_Suc_conv eval_nat_numeral)
  from h have "length vs = length [0..<6]"
    and "\<forall>k<length [0..<6]. check_response (nth_reply c k) ''RR'' \<and>
               py_int (Value (nth_reply c k)) = Inr (vs ! k)"
    by simp_all
  from rotational_loop_good [OF this, of "replicate 6 None"]
  have r: "fst (rotational_loop [0..<6] (replicate 6 None) c) =
             Inr (fold (\<lambda>(i, x) t. t[i := Some x]) (zip [0..<6] vs) (replicate 6 None))"
    and w: "written (snd (rotational_loop [0..<6] (replicate 6 None) c)) =
             written c @ map (\<lambda>i. request_text ''IBRR'' (Some (int i + 1))) [0..<6]"
    by simp_all
  have "fold (\<lambda>(i, x) t. t[i := Some x]) (zip [0..<6] vs) (replicate 6 None) =
          map (\<lambda>x. Some x) vs"
    by (simp add: vs upt_rec eval_nat_numeral)
  with r show "fst (get_rotational_frequency self) = Inr (map (\<lambda>x. Some x) vs)"
    by (simp add: fst_get_rotational_frequency [OF assms])
  from w show "\<exists>c'. comm (snd (get_rotational_frequency self)) = Some c' \<and>
              written c' = written c @
                [''IBRR1'' @ [CR, LF], ''IBRR2'' @ [CR, LF], ''IBRR3'' @ [CR, LF],
                   ''IBRR4'' @ [CR, LF], ''IBRR5'' @ [CR, LF], ''IBRR6'' @ [CR, LF]]"
    by (simp add: snd_get_rotational_frequency [OF assms] rr_requests)
next
  assume h: "j < 6 \<and>
        (\<forall>k<j. check_response (nth_reply c k) ''RR'' \<and>
                 (\<exists>x. py_int (Value (nth_reply c k)) = Inr x)) \<and>
        \<not> check_response (nth_reply c j) ''RR''"
  then have j: "j < length [0..<6]" by simp
  from rotational_loop_abort [OF j, of c "replicate 6 None"] h
  show "fst (get_rotational_frequency self) = Inr []"
    by (simp add: fst_get_rotational_frequency [OF assms])
  from rotational_loop_abort_written [OF j, of c "replicate 6 None"] h
  obtain n where "j \<le> n" "n \<le> Suc j"
    "written (snd (rotational_loop [0..<6] (replicate 6 None) c)) =
       written c @ map (\<lambda>i. request_text ''IBRR'' (Some (int i + 1))) (take n [0..<6])"
    by blast
  then have "j \<le> n \<and> n \<le> Suc j \<and>
      comm (snd (get_rotational_frequency self)) =
        Some (snd (rotational_loop [0..<6] (replicate 6 None) c)) \<and>
      written (snd (rotational_loop [0..<6] (replicate 6 None) c)) = written c @ take n
        [''IBRR1'' @ [CR, LF], ''IBRR2'' @ [CR, LF], ''IBRR3'' @ [CR, LF],
                   ''IBRR4'' @ [CR, LF], ''IBRR5'' @ [CR, LF], ''IBRR6'' @ [CR, LF]]"
    by (simp only: snd_get_rotational_frequency [OF assms] take_map [symmetric] rr_requests)
  then show "\<exists>c' n. j \<le> n \<and> n \<le> Suc j \<and> comm (snd (get_rotational_frequency self)) = Some c' \<and>
                written c' = written c @ take n
                  [''IBRR1'' @ [CR, LF], ''IBRR2'' @ [CR, LF], ''IBRR3'' @ [CR, LF],
                   ''IBRR4'' @ [CR, LF], ''IBRR5'' @ [CR, LF], ''IBRR6'' @ [CR, LF]]"
    by blast
next
  from rotational_loop_written [of "[0..<6]" "replicate 6 None" c]
  obtain n where "n \<le> 6"
    "written (snd (rotational_loop [0..<6] (replicate 6 None) c)) =
       written c @ map (\<lambda>i. request_text ''IBRR'' (Some (int i + 1))) (take n [0..<6])"
    by auto
  then have "n \<le> 6 \<and>
      comm (snd (get_rotational_frequency self)) =
        Some (snd (rotational_loop [0..<6] (replicate 6 None) c)) \<and>
      written (snd (rotational_loop [0..<6] (replicate 6 None) c)) = written c @ take n
        [''IBRR1'' @ [CR, LF], ''IBRR2'' @ [CR, LF], ''IBRR3'' @ [CR, LF],
             ''IBRR4'' @ [CR, LF], ''IBRR5'' @ [CR, LF], ''IBRR6'' @ [CR, LF]]"
    by (simp only: snd_get_rotational_frequency [OF assms] take_map [symmetric] rr_requests)
  then show "\<exists>c' n. n \<le> 6 \<and> comm (snd (get_rotational_frequency self)) = Some c' \<and>
          written c' = written c @ take n
            [''IBRR1'' @ [CR, LF], ''IBRR2'' @ [CR, LF], ''IBRR3'' @ [CR, LF],
             ''IBRR4'' @ [CR, LF], ''IBRR5'' @ [CR, LF], ''IBRR6'' @ [CR, LF]]"
    by blast
qed

theorem get_rotational_frequency_all_or_nothing_witness:
  "fst (get_rotational_frequency
     (box [full_line ''IBRRer00+00100'', full_line ''IBRRer00+00200'',
           full_line ''IBRRer00+00300'', full_line ''IBRRer00+00400'',
           full_line ''IBRRer00+00500'', full_line ''IBRRer00+00600''])) =
     Inr [Some 100, Some 200, Some 300, Some 400, Some 500, Some 600]
   \<and> \<not> check_response (parse_response ''garbled'') ''RR''
   \<and> fst (get_rotational_frequency
     (box [full_line ''IBRRer00+00100'', Line ''garbled'',
           full_line ''IBRRer00+00300'', full_line ''IBRRer00+00400'',
           full_line ''IBRRer00+00500'', full_line ''IBRRer00+00600''])) = Inr []"
proof -
  define good where "good = \<lparr>port = ''COM1'',
    pending = [full_line ''IBRRer00+00100'', full_line ''IBRRer00+00200'',
               full_line ''IBRRer00+00300'', full_line ''IBRRer00+00400'',
               full_line ''IBRRer00+00500'', full_line ''IBRRer00+00600''], written = []\<rparr>"
  define bad where "bad = \<lparr>port = ''COM1'',
    pending = [full_line ''IBRRer00+00100'', Line ''garbled'',
               full_line ''IBRRer00+00300'', full_line ''IBRRer00+00400'',
               full_line ''IBRRer00+00500'', full_line ''IBRRer00+00600''], written = []\<rparr>"
  have g: "comm (box [full_line ''IBRRer00+00100'', full_line ''IBRRer00+00200'',
           full_line ''IBRRer00+00300'', full_line ''IBRRer00+00400'',
           full_line ''IBRRer00+00500'', full_line ''IBRRer00+00600'']) = Some good"
    and b: "comm (box [full_line ''IBRRer00+00100'', Line ''garbled'',
           full_line ''IBRRer00+00300'', full_line ''IBRRer00+00400'',
           full_line ''IBRRer00+00500'', full_line ''IBRRer00+00600'']) = Some bad"
    by (simp_all add: box_def good_def bad_def)
  have hg: "length [100, 200, 300, 400, 500, 600 :: int] = 6 \<and>
      (\<forall>k<6. check_response (nth_reply good k) ''RR'' \<and>
         py_int (Value (nth_reply good k)) = Inr ([100, 200, 300, 400, 500, 600] ! k))"
    unfolding good_def by code_simp
  have hb: "1 < (6::nat) \<and>
      (\<forall>k<1. check_response (nth_reply bad k) ''RR'' \<and>
         (\<exists>x. py_int (Value (nth_reply bad k)) = Inr x)) \<and>
      \<not> check_response (nth_reply bad 1) ''RR''"
  proof -
    have "py_int (Value (nth_reply bad 0)) = Inr 100"
      and "check_response (nth_reply bad 0) ''RR''"
      and "\<not> check_response (nth_reply bad 1) ''RR''"
      unfolding bad_def by code_simp+
    then show ?thesis by simp
  qed
  have nb: "\<not> check_response (parse_response ''garbled'') ''RR''"
    by code_simp
  from get_rotational_frequency_all_or_nothing [OF g, of "[100, 200, 300, 400, 500, 600]" 0] hg
  have 1: "fst (get_rotational_frequency
     (box [full_line ''IBRRer00+00100'', full_line ''IBRRer00+00200'',
           full_line ''IBRRer00+00300'', full_line ''IBRRer00+00400'',
           full_line ''IBRRer00+00500'', full_line ''IBRRer00+00600''])) =
     Inr [Some 100, Some 200, Some 300, Some 400, Some 500, Some 600]"
    by simp
  from get_rotational_frequency_all_or_nothing [OF b, of "[]" 1] hb
  have 2: "fst (get_rotational_frequency
     (box [full_line ''IBRRer00+00100'', Line ''garbled'',
           full_line ''IBRRer00+00300'', full_line ''IBRRer00+00400'',
           full_line ''IBRRer00+00500'', full_line ''IBRRer00+00600''])) = Inr []"
    by blast
  from 1 nb 2 show ?thesis by blast
qed

text \<open>
  C7 as stated fails: a response can pass validation with a value that \<open>int\<close>
  rejects, such as a decimal fraction or no value at all, and then
  \<open>get_rotational_frequency\<close> raises \<open>ValueError\<close>.
\<close>

theorem get_rotational_frequency_raises:
  "check_response (parse_response (''IBRRer00 12.5'' @ [CR, LF])) ''RR''
   \<and> Value (parse_response (''IBRRer00 12.5'' @ [CR, LF])) = ''12.5'' @ [CR]
   \<and> fst (get_rotational_frequency
       (box [full_line ''IBRRer00 12.5'', full_line ''IBRRer00+00200'',
             full_line ''IBRRer00+00300'', full_line ''IBRRer00+00400'',
             full_line ''IBRRer00+00500'', full_line ''IBRRer00+00600''])) = Inl ValueError
   \<and> check_response (parse_response (''IBRRer00'' @ [CR, LF])) ''RR''
   \<and> fst (get_rotational_frequency
       (box [full_line ''IBRRer00+00100'', full_line ''IBRRer00'', Line ''garbled'',
             full_line ''IBRRer00+00400'', full_line ''IBRRer00+00500'',
             full_line ''IBRRer00+00600''])) = Inl ValueError"
  by code_simp

text \<open>
  C8 (as amended). \<open>get_oxigen_sensor\<close> makes one exchange, for the request
  \<open>IBRI\<close>. If the response passes validation and \<open>float\<close> accepts its value, the
  result is the value divided by 1000. If the response fails validation, the
  result is the empty list.
\<close>

theorem get_oxigen_sensor_one_request:
  assumes "comm self = Some c"
  shows
    "(check_response (nth_reply c 0) ''RI'' \<and> py_float (Value (nth_reply c 0)) = Inr v \<longrightarrow>
        fst (get_oxigen_sensor self) = Inr (Float (fdiv v 1000))
        \<and> (\<exists>c'. comm (snd (get_oxigen_sensor self)) = Some c' \<and>
              written c' = written c @ [''IBRI'' @ [CR, LF]]))
     \<and> (\<not> check_response (nth_reply c 0) ''RI'' \<longrightarrow>
        fst (get_oxigen_sensor self) = Inr EmptyList)
     \<and> (\<exists>c'. comm (snd (get_oxigen_sensor self)) = Some c' \<and>
          pending c' = tl (pending c) \<and>
          (written c' = written c @ [''IBRI'' @ [CR, LF]] \<or> written c' = written c))"
proof -
  let ?c = "snd (req_resp c ''IBRI'' None)"
  have s: "comm (snd (get_oxigen_sensor self)) = Some ?c"
    by (simp add: get_oxigen_sensor_eq [OF assms])
  have p: "pending ?c = tl (pending c)"
    by (simp add: req_resp_def split: list.splits exchange.splits)
  have w: "written ?c = written c @ [''IBRI'' @ [CR, LF]] \<or> written ?c = written c"
    using written_req_resp [of c "''IBRI''" None] by (simp add: request_text_plain)
  have a: "check_response (nth_reply c 0) ''RI'' \<Longrightarrow>
        written ?c = written c @ [''IBRI'' @ [CR, LF]]"
    using written_req_resp_answered [of c "''IBRI''" None]
    by (simp add: request_text_plain valid_not_sentinel)
  show ?thesis
    using s p w a by (simp add: get_oxigen_sensor_eq [OF assms])
qed

theorem get_oxigen_sensor_one_request_witness:
  "fst (get_oxigen_sensor (box [full_line ''IBRIer00+01234''])) = Inr (Float (Finite (617 / 500)))
   \<and> \<not> check_response (parse_response (''IBRIer05+01234'' @ [CR, LF])) ''RI''
   \<and> fst (get_oxigen_sensor (box [full_line ''IBRIer05+01234''])) = Inr EmptyList
   \<and> fst (get_oxigen_sensor (box [RecvFault])) = Inr EmptyList"
proof -
  define good where "good = \<lparr>port = ''COM1'', pending = [full_line ''IBRIer00+01234''],
    written = []\<rparr>"
  define bad where "bad = \<lparr>port = ''COM1'', pending = [full_line ''IBRIer05+01234''],
    written = []\<rparr>"
  define dead where "dead = \<lparr>port = ''COM1'', pending = [RecvFault], written = []\<rparr>"
  have g: "comm (box [full_line ''IBRIer00+01234'']) = Some good"
    and b: "comm (box [full_line ''IBRIer05+01234'']) = Some bad"
    and d: "comm (box [RecvFault]) = Some dead"
    by (simp_all add: box_def good_def bad_def dead_def)
  have hg: "check_response (nth_reply good 0) ''RI'' \<and>
      py_float (Value (nth_reply good 0)) = Inr (Finite 1234)"
    unfolding good_def by code_simp
  have hb: "\<not> check_response (nth_reply bad 0) ''RI''"
    unfolding bad_def by code_simp
  have hd: "\<not> check_response (nth_reply dead 0) ''RI''"
    unfolding dead_def by code_simp
  have nb: "\<not> check_response (parse_response (''IBRIer05+01234'' @ [CR, LF])) ''RI''"
    by code_simp
  from get_oxigen_sensor_one_request [OF g, of "Finite 1234"] hg
  have 1: "fst (get_oxigen_sensor (box [full_line ''IBRIer00+01234''])) =
      Inr (Float (Finite (617 / 500)))"
    by simp
  from get_oxigen_sensor_one_request [OF b, of NaN] hb
  have 2: "fst (get_oxigen_sensor (box [full_line ''IBRIer05+01234''])) = Inr EmptyList"
    by blast
  from get_oxigen_sensor_one_request [OF d, of NaN] hd
  have 3: "fst (get_oxigen_sensor (box [RecvFault])) = Inr EmptyList"
    by blast
  from 1 nb 2 3 show ?thesis by blast
qed

text \<open>
  C8 as stated fails: a response can pass validation with a value that \<open>float\<close>
  rejects, and then \<open>get_oxigen_sensor\<close> raises \<open>ValueError\<close>.
\<close>

theorem get_oxigen_sensor_raises:
  "check_response (parse_response (''IBRIer00 n/a'' @ [CR, LF])) ''RI''
   \<and> Value (parse_response (''IBRIer00 n/a'' @ [CR, LF])) = ''n/a'' @ [CR]
   \<and> fst (get_oxigen_sensor (box [full_line ''IBRIer00 n/a''])) = Inl ValueError"
  by code_simp

text \<open>
  C3 (as amended). \<open>req_resp\<close> returns a response for every request and every
  state of the port; no exception leaves it. When opening or writing, reading or
  decoding raises, the response is the sentinel. When the read times out, the
  text received until then is parsed like any other: the response is the
  sentinel when nothing was received or the text is not framed, and the parsed
  response otherwise.
\<close>

theorem req_resp_sentinel:
  "(pending self = x # rest \<and> x \<in> {SendFault, RecvFault, DecodeFault} \<longrightarrow>
      fst (req_resp self req nbr) = sentinel)
   \<and> (pending self = Line l # rest \<and> \<not> framed l \<longrightarrow>
      fst (req_resp self req nbr) = sentinel)
   \<and> (pending self = Line [] # rest \<longrightarrow> fst (req_resp self req nbr) = sentinel)
   \<and> (pending self = [] \<longrightarrow> fst (req_resp self req nbr) = sentinel)
   \<and> (pending self = Line l # rest \<and> framed l \<longrightarrow>
      fst (req_resp self req nbr) = parse_response l \<and> fst (req_resp self req nbr) \<noteq> sentinel)"
proof -
  have "framed l \<Longrightarrow> parse_response l \<noteq> sentinel"
    by (erule framedE) (simp add: parse_response_framed sentinel_def)
  then show ?thesis
    by (auto simp: req_resp_fault req_resp_Line req_resp_silent parse_response_unframed
        parse_response_Nil simp del: insert_iff)
qed

theorem req_resp_sentinel_witness:
  "fst (req_resp \<lparr>port = ''COM1'', pending = [SendFault], written = []\<rparr> ''IBRF'' None) = sentinel
   \<and> fst (req_resp \<lparr>port = ''COM1'', pending = [RecvFault], written = []\<rparr> ''IBRF'' None) = sentinel
   \<and> fst (req_resp \<lparr>port = ''COM1'', pending = [DecodeFault], written = []\<rparr> ''IBRT'' (Some 1)) = sentinel
   \<and> \<not> framed ''IBRT''
   \<and> fst (req_resp \<lparr>port = ''COM1'', pending = [Line ''IBRT''], written = []\<rparr> ''IBRT'' (Some 1)) = sentinel
   \<and> fst (req_resp \<lparr>port = ''COM1'', pending = [Line []], written = []\<rparr> ''IBRF'' None) = sentinel
   \<and> fst (req_resp \<lparr>port = ''COM1'', pending = [], written = []\<rparr> ''IBRF'' None) = sentinel
   \<and> framed ''IBRFer00''
   \<and> fst (req_resp \<lparr>port = ''COM1'', pending = [Line ''IBRFer00''], written = []\<rparr> ''IBRF'' None)
       \<noteq> sentinel"
proof -
  have u: "\<not> framed ''IBRT''" and f: "framed ''IBRFer00''"
    by (simp_all add: is_word_def is_digit_def)
  have 1: "fst (req_resp \<lparr>port = ''COM1'', pending = [SendFault], written = []\<rparr> ''IBRF'' None) = sentinel"
    using req_resp_sentinel [of "\<lparr>port = ''COM1'', pending = [SendFault], written = []\<rparr>"
        SendFault "[]" "''IBRF''" None "[]"]
    by simp
  have 2: "fst (req_resp \<lparr>port = ''COM1'', pending = [RecvFault], written = []\<rparr> ''IBRF'' None) = sentinel"
    using req_resp_sentinel [of "\<lparr>port = ''COM1'', pending = [RecvFault], written = []\<rparr>"
        RecvFault "[]" "''IBRF''" None "[]"]
    by simp
  have 3: "fst (req_resp \<lparr>port = ''COM1'', pending = [DecodeFault], written = []\<rparr> ''IBRT'' (Some 1)) = sentinel"
    using req_resp_sentinel [of "\<lparr>port = ''COM1'', pending = [DecodeFault], written = []\<rparr>"
        DecodeFault "[]" "''IBRT''" "Some 1" "[]"]
    by simp
  have 4: "fst (req_resp \<lparr>port = ''COM1'', pending = [Line ''IBRT''], written = []\<rparr> ''IBRT'' (Some 1)) = sentinel"
    using u req_resp_sentinel [of "\<lparr>port = ''COM1'', pending = [Line ''IBRT''], written = []\<rparr>"
        "Line ''IBRT''" "[]" "''IBRT''" "Some 1" "''IBRT''"]
    by simp
  have 5: "fst (req_resp \<lparr>port = ''COM1'', pending = [Line []], written = []\<rparr> ''IBRF'' None) = sentinel"
    using req_resp_sentinel [of "\<lparr>port = ''COM1'', pending = [Line []], written = []\<rparr>"
        "Line []" "[]" "''IBRF''" None "[]"]
    by simp
  have 6: "fst (req_resp \<lparr>port = ''COM1'', pending = [], written = []\<rparr> ''IBRF'' None) = sentinel"
    using req_resp_sentinel [of "\<lparr>port = ''COM1'', pending = [], written = []\<rparr>"
        SendFault "[]" "''IBRF''" None "[]"]
    by simp
  have 7: "fst (req_resp \<lparr>port = ''COM1'', pending = [Line ''IBRFer00''], written = []\<rparr> ''IBRF'' None)
       \<noteq> sentinel"
  proof -
    have "pending \<lparr>port = ''COM1'', pending = [Line ''IBRFer00''], written = []\<rparr> =
        [Line ''IBRFer00'']"
      by simp
    with f req_resp_sentinel [of "\<lparr>port = ''COM1'', pending = [Line ''IBRFer00''], written = []\<rparr>"
        "Line ''IBRFer00''" "[]" "''IBRF''" None "''IBRFer00''"]
    show ?thesis by blast
  qed
  from 1 2 3 u 4 5 6 f 7 show ?thesis by blast
qed

text \<open>
  C3 as stated fails for a timeout: a read that times out after the box has sent
  the framed start of a line returns that text, and \<open>req_resp\<close> returns the
  response parsed from it, not the sentinel.
\<close>

theorem req_resp_partial_line:
  "timed_out (Line ''IBRFer00'')
   \<and> fst (req_resp \<lparr>port = ''COM1'', pending = [Line ''IBRFer00''], written = []\<rparr> ''IBRF'' None) =
       \<lparr>Command = ''RF'', ErrCode = ''00'', Value = []\<rparr>
   \<and> fst (req_resp \<lparr>port = ''COM1'', pending = [Line ''IBRFer00''], written = []\<rparr> ''IBRF'' None)
       \<noteq> sentinel"
  by code_simp

text \<open>
  C5. \<open>is_raedy\<close> is true exactly when a transport has been constructed and the
  response to the request \<open>IBRF\<close> has the command \<open>RF\<close>; the error code plays
  no part. Without a transport it returns false and leaves the driver as it is,
  so nothing is written or read. With a transport it makes the one exchange.
\<close>

theorem is_raedy_ignores_error_code:
  "(fst (is_raedy self) \<longleftrightarrow>
      (\<exists>c. comm self = Some c \<and> Command (fst (req_resp c ''IBRF'' None)) = ''RF''))
   \<and> (comm self = None \<longrightarrow> is_raedy self = (False, self))
   \<and> (comm self = Some c \<longrightarrow>
        snd (is_raedy self) = self\<lparr>comm := Some (snd (req_resp c ''IBRF'' None))\<rparr>)"
  by (cases "comm self")
     (simp_all add: is_raedy_def SerialCommunication_is_raedy_def case_prod_beta)

theorem is_raedy_ignores_error_code_witness:
  "fst (is_raedy (box [full_line ''IBRFer99'']))
   \<and> ErrCode (parse_response (''IBRFer99'' @ [CR, LF])) = ''99''
   \<and> \<not> fst (is_raedy (box [full_line ''IBRTer00+00215'']))
   \<and> \<not> fst (is_raedy (box [RecvFault]))
   \<and> is_raedy \<lparr>comm = None\<rparr> = (False, \<lparr>comm = None\<rparr>)
   \<and> written (the (comm (snd (is_raedy (box [full_line ''IBRFer99''])))))
       = [''IBRF'' @ [CR, LF]]"
proof -
  define c1 where "c1 = \<lparr>port = ''COM1'', pending = [full_line ''IBRFer99''], written = []\<rparr>"
  define c2 where "c2 = \<lparr>port = ''COM1'', pending = [full_line ''IBRTer00+00215''], written = []\<rparr>"
  define c3 where "c3 = \<lparr>port = ''COM1'', pending = [RecvFault], written = []\<rparr>"
  have b: "comm (box [full_line ''IBRFer99'']) = Some c1"
    "comm (box [full_line ''IBRTer00+00215'']) = Some c2"
    "comm (box [RecvFault]) = Some c3"
    by (simp_all add: box_def c1_def c2_def c3_def)
  have r: "Command (fst (req_resp c1 ''IBRF'' None)) = ''RF''"
    "Command (fst (req_resp c2 ''IBRF'' None)) \<noteq> ''RF''"
    "Command (fst (req_resp c3 ''IBRF'' None)) \<noteq> ''RF''"
    "written (snd (req_resp c1 ''IBRF'' None)) = [''IBRF'' @ [CR, LF]]"
    "ErrCode (parse_response (''IBRFer99'' @ [CR, LF])) = ''99''"
    unfolding c1_def c2_def c3_def by code_simp+
  show ?thesis
    using b r
      is_raedy_ignores_error_code [of "box [full_line ''IBRFer99'']" c1]
      is_raedy_ignores_error_code [of "box [full_line ''IBRTer00+00215'']" c2]
      is_raedy_ignores_error_code [of "box [RecvFault]" c3]
      is_raedy_ignores_error_code [of "\<lparr>comm = None\<rparr>" c1]
    by simp
qed

text \<open>
  C9 (as amended). When the constructor of the transport raises
  \<open>serial.SerialException\<close>, \<open>connect\<close> returns false and leaves the driver as it
  is, and that exception never leaves \<open>connect\<close>. After such a failed \<open>connect\<close>
  on a driver without a transport, \<open>is_raedy\<close> returns false and leaves the driver
  as it is. When the constructor succeeds, \<open>connect\<close> returns true and the driver
  holds the new transport.
\<close>

theorem connect_catches_SerialException:
  "(outcome = Raises SerialException \<longrightarrow> connect self device outcome = (Inr False, self))
   \<and> (fst (connect self device outcome) \<noteq> Inl SerialException)
   \<and> (outcome = Raises SerialException \<and> comm self = None \<longrightarrow>
        is_raedy (snd (connect self device outcome)) = (False, snd (connect self device outcome)))
   \<and> (outcome = Opens xs \<longrightarrow>
        connect self device outcome =
          (Inr True, self\<lparr>comm := Some \<lparr>port = device, pending = xs, written = []\<rparr>\<rparr>))"
  by (cases outcome)
     (auto simp: connect_def SerialCommunication_def is_raedy_def)

theorem connect_catches_SerialException_witness:
  "connect \<lparr>comm = None\<rparr> ''COM9'' (Raises SerialException) = (Inr False, \<lparr>comm = None\<rparr>)
   \<and> is_raedy (snd (connect \<lparr>comm = None\<rparr> ''COM9'' (Raises SerialException))) =
       (False, \<lparr>comm = None\<rparr>)
   \<and> connect \<lparr>comm = None\<rparr> ''COM1'' (Opens []) =
       (Inr True, \<lparr>comm = Some \<lparr>port = ''COM1'', pending = [], written = []\<rparr>\<rparr>)"
proof -
  have 1: "connect \<lparr>comm = None\<rparr> ''COM9'' (Raises SerialException) = (Inr False, \<lparr>comm = None\<rparr>)"
    using connect_catches_SerialException
      [of "Raises SerialException" "\<lparr>comm = None\<rparr>" "''COM9''" "[]"]
    by simp
  have "comm \<lparr>comm = None\<rparr> = None"
    by simp
  with connect_catches_SerialException
      [of "Raises SerialException" "\<lparr>comm = None\<rparr>" "''COM9''" "[]"]
  have "is_raedy (snd (connect \<lparr>comm = None\<rparr> ''COM9'' (Raises SerialException))) =
       (False, snd (connect \<lparr>comm = None\<rparr> ''COM9'' (Raises SerialException)))"
    by blast
  then have 2: "is_raedy (snd (connect \<lparr>comm = None\<rparr> ''COM9'' (Raises SerialException))) =
       (False, \<lparr>comm = None\<rparr>)"
    by (simp only: 1 snd_conv)
  have 3: "connect \<lparr>comm = None\<rparr> ''COM1'' (Opens []) =
       (Inr True, \<lparr>comm = Some \<lparr>port = ''COM1'', pending = [], written = []\<rparr>\<rparr>)"
    using connect_catches_SerialException [of "Opens []" "\<lparr>comm = None\<rparr>" "''COM1''" "[]"]
    by simp
  from 1 2 3 show ?thesis by blast
qed

text \<open>
  C9 as stated fails: the handler of \<open>connect\<close> names \<open>serial.SerialException\<close>
  only, so any other exception of the constructor, such as the \<open>ValueError\<close> that
  \<open>serial.Serial\<close> raises for an argument it rejects, leaves \<open>connect\<close>.
\<close>

theorem connect_lets_ValueError_through:
  "connect \<lparr>comm = None\<rparr> (''COM1'' @ [CHR 0x00]) (Raises ValueError) =
     (Inl ValueError, \<lparr>comm = None\<rparr>)"
  by (simp add: connect_def SerialCommunication_def)

text \<open>
  C6. The request for \<open>RT\<close> and channel 2 is the text \<open>IBRT2\<close> followed by
  carriage return and line feed; the line \<open>IBRTer00+00215\<close> parses to the command
  \<open>RT\<close>, the error code \<open>00\<close> and the value \<open>00215\<close>; and \<open>get_temperatures\<close>
  derives 21.5 from it for the second channel, whether or not the line carries
  its end-of-line characters.
\<close>

theorem round_trip_framing:
  "request_text ''IBRT'' (Some 2) = ''IBRT2'' @ [CR, LF]
   \<and> parse_response ''IBRTer00+00215'' =
       \<lparr>Command = ''RT'', ErrCode = ''00'', Value = ''00215''\<rparr>
   \<and> py_float ''00215'' = Inr (Finite 215)
   \<and> fst (get_temperatures
       (box [Line ''IBRTer00+00200'', Line ''IBRTer00+00215'',
             Line ''IBRTer00+00230'', Line ''IBRTer00+00245''])) =
       Inr [Some (Finite 20), Some (Finite (215 / 10)), Some (Finite 23), Some (Finite (49 / 2))]
   \<and> fst (get_temperatures
       (box [full_line ''IBRTer00+00200'', full_line ''IBRTer00+00215'',
             full_line ''IBRTer00+00230'', full_line ''IBRTer00+00245''])) =
       Inr [Some (Finite 20), Some (Finite (215 / 10)), Some (Finite 23), Some (Finite (49 / 2))]
   \<and> written (the (comm (snd (get_temperatures
       (box [full_line ''IBRTer00+00200'', full_line ''IBRTer00+00215'',
             full_line ''IBRTer00+00230'', full_line ''IBRTer00+00245'']))))) ! 1 =
       ''IBRT2'' @ [CR, LF]"
  by code_simp

text \<open>
  C2 (as amended). On a driver with a transport, \<open>get_firmware_version\<close> and
  \<open>reset_errors\<close> always return. \<open>get_temperatures\<close>, \<open>get_rotational_frequency\<close>
  and \<open>get_oxigen_sensor\<close> return too, except that they raise the \<open>ValueError\<close> of
  \<open>float\<close> or \<open>int\<close> when a response has passed validation and its value is not
  a number. When the response is the sentinel, as for a malformed line or a
  failed exchange, every accessor returns its empty result.
\<close>

theorem accessors_degrade:
  assumes "comm self = Some c"
  shows
    "(\<exists>v. fst (get_firmware_version self) = Inr v)
     \<and> fst (reset_errors self) = Inr ()
     \<and> (nth_reply c 0 = sentinel \<longrightarrow>
          fst (get_firmware_version self) = Inr [] \<and>
          fst (get_temperatures self) = Inr [] \<and>
          fst (get_rotational_frequency self) = Inr [] \<and>
          fst (get_oxigen_sensor self) = Inr EmptyList)
     \<and> (fst (get_temperatures self) = Inl e \<longrightarrow>
          e = ValueError \<and>
          (\<exists>k<4. check_response (nth_reply c k) ''RT'' \<and>
                   py_float (Value (nth_reply c k)) = Inl ValueError))
     \<and> (fst (get_rotational_frequency self) = Inl e \<longrightarrow>
          e = ValueError \<and>
          (\<exists>k<6. check_response (nth_reply c k) ''RR'' \<and>
                   py_int (Value (nth_reply c k)) = Inl ValueError))
     \<and> (fst (get_oxigen_sensor self) = Inl e \<longrightarrow>
          e = ValueError \<and> check_response (nth_reply c 0) ''RI'' \<and>
          py_float (Value (nth_reply c 0)) = Inl ValueError)"
proof (intro conjI impI)
  show "\<exists>v. fst (get_firmware_version self) = Inr v"
    by (simp add: get_firmware_version_eq [OF assms])
  show "fst (reset_errors self) = Inr ()"
    by (simp add: reset_errors_eq [OF assms])
next
  assume s: "nth_reply c 0 = sentinel"
  then have n: "\<not> check_response (nth_reply c 0) cmd" for cmd
    by (simp add: sentinel_invalid)
  show "fst (get_firmware_version self) = Inr []"
    by (simp add: get_firmware_version_eq [OF assms] n)
  show "fst (get_oxigen_sensor self) = Inr EmptyList"
    by (simp add: get_oxigen_sensor_eq [OF assms] n)
  from temperatures_loop_abort [of 0 "[0..<4]" c "replicate 4 None"] n
  show "fst (get_temperatures self) = Inr []"
    by (simp add: fst_get_temperatures [OF assms])
  from rotational_loop_abort [of 0 "[0..<6]" c "replicate 6 None"] n
  show "fst (get_rotational_frequency self) = Inr []"
    by (simp add: fst_get_rotational_frequency [OF assms])
next
  assume "fst (get_temperatures self) = Inl e"
  then have "fst (temperatures_loop [0..<4] (replicate 4 None) c) = Inl e"
    by (simp add: fst_get_temperatures [OF assms])
  from temperatures_loop_raise [OF this] obtain k where k: "k < 4"
    "check_response (nth_reply c k) ''RT''" "py_float (Value (nth_reply c k)) = Inl e"
    by auto
  from k(3) show e: "e = ValueError" by (rule py_float_error)
  from k e show "\<exists>k<4. check_response (nth_reply c k) ''RT'' \<and>
                   py_float (Value (nth_reply c k)) = Inl ValueError"
    by blast
next
  assume "fst (get_rotational_frequency self) = Inl e"
  then have "fst (rotational_loop [0..<6] (replicate 6 None) c) = Inl e"
    by (simp add: fst_get_rotational_frequency [OF assms])
  from rotational_loop_raise [OF this] obtain k where k: "k < 6"
    "check_response (nth_reply c k) ''RR''" "py_int (Value (nth_reply c k)) = Inl e"
    by auto
  from k(3) show e: "e = ValueError" by (rule py_int_error)
  from k e show "\<exists>k<6. check_response (nth_reply c k) ''RR'' \<and>
                   py_int (Value (nth_reply c k)) = Inl ValueError"
    by blast
next
  assume r: "fst (get_oxigen_sensor self) = Inl e"
  then have v: "check_response (nth_reply c 0) ''RI''"
    by (auto simp: get_oxigen_sensor_eq [OF assms] split: if_splits)
  with r have f: "py_float (Value (nth_reply c 0)) = Inl e"
    by (auto simp: get_oxigen_sensor_eq [OF assms] split: sum.splits)
  then show e: "e = ValueError" by (rule py_float_error)
  from v show "check_response (nth_reply c 0) ''RI''" .
  from f e show "py_float (Value (nth_reply c 0)) = Inl ValueError" by simp
qed

theorem accessors_degrade_witness:
  "fst (get_firmware_version (box [Line ''garbled''])) = Inr []
   \<and> fst (reset_errors (box [Line ''garbled''])) = Inr ()
   \<and> fst (get_temperatures (box [Line ''garbled''])) = Inr []
   \<and> fst (get_rotational_frequency (box [Line ''garbled''])) = Inr []
   \<and> fst (get_oxigen_sensor (box [Line ''garbled''])) = Inr EmptyList
   \<and> fst (get_temperatures (box [full_line ''IBRTer00''])) = Inl ValueError
   \<and> check_response (parse_response (''IBRTer00'' @ [CR, LF])) ''RT''
   \<and> py_float (Value (parse_response (''IBRTer00'' @ [CR, LF]))) = Inl ValueError"
proof -
  define g where "g = \<lparr>port = ''COM1'', pending = [Line ''garbled''], written = []\<rparr>"
  define t where "t = \<lparr>port = ''COM1'', pending = [full_line ''IBRTer00''], written = []\<rparr>"
  have cg: "comm (box [Line ''garbled'']) = Some g"
    and ct: "comm (box [full_line ''IBRTer00'']) = Some t"
    by (simp_all add: box_def g_def t_def)
  have s: "nth_reply g 0 = sentinel"
    unfolding g_def by code_simp
  have r: "fst (get_temperatures (box [full_line ''IBRTer00''])) = Inl ValueError"
    by code_simp
  have p: "check_response (parse_response (''IBRTer00'' @ [CR, LF])) ''RT''"
    "py_float (Value (parse_response (''IBRTer00'' @ [CR, LF]))) = Inl ValueError"
    by code_simp+
  from accessors_degrade [OF cg, of ValueError] s
  have 1: "fst (get_firmware_version (box [Line ''garbled''])) = Inr []"
    "fst (reset_errors (box [Line ''garbled''])) = Inr ()"
    "fst (get_temperatures (box [Line ''garbled''])) = Inr []"
    "fst (get_rotational_frequency (box [Line ''garbled''])) = Inr []"
    "fst (get_oxigen_sensor (box [Line ''garbled''])) = Inr EmptyList"
    by blast+
  from accessors_degrade [OF ct, of ValueError] r
  have 2: "\<exists>k<4. check_response (nth_reply t k) ''RT'' \<and>
                   py_float (Value (nth_reply t k)) = Inl ValueError"
    by blast
  from 1 r p show ?thesis by blast
qed

text \<open>
  C2 as stated fails: \<open>get_temperatures\<close> raises \<open>ValueError\<close> on a line that
  passes validation with an empty value, the line of C10; and on a driver that
  was never connected every accessor raises \<open>AttributeError\<close>.
\<close>

theorem accessors_raise:
  "check_response (parse_response (''IBRTer0000215'' @ [CR, LF])) ''RT''
   \<and> fst (get_temperatures (box [full_line ''IBRTer0000215''])) = Inl ValueError
   \<and> fst (get_firmware_version \<lparr>comm = None\<rparr>) = Inl AttributeError
   \<and> fst (get_temperatures \<lparr>comm = None\<rparr>) = Inl AttributeError"
  by code_simp

end
